theory Spec2Isabelle
  imports Main "HOL-Library.Multiset" "HOL-Library.Sublist"
begin

section \<open>The Monsti daemon's service core (core/monsti-daemon/service.go)\<close>

text \<open>
  Go values are modelled as follows.  A \<^verbatim>\<open>string\<close> and a \<^verbatim>\<open>[]byte\<close> are lists of
  bytes (\<^typ>\<open>string\<close>); a \<^verbatim>\<open>[]byte\<close> that may be \<^verbatim>\<open>nil\<close> is a \<^typ>\<open>string option\<close>.
  A Go map that may be \<^verbatim>\<open>nil\<close> is an optional partial function: reading a \<^verbatim>\<open>nil\<close>
  map finds no key, writing to it panics.  A function that can panic returns an
  \<open>outcome\<close>; a Go \<^verbatim>\<open>error\<close> result is an optional error (\<open>None\<close> is \<^verbatim>\<open>nil\<close>).
  The mutex of \<^verbatim>\<open>MonstiService\<close> is not modelled: every operation below is the
  sequential effect of one call.
\<close>

type_synonym bytes = string

datatype panic =
    IndexOutOfRange
  | SliceBoundsOutOfRange
  | NilMapAssignment
  | NilDereference

datatype 'a outcome = Returns 'a | Panics panic

text \<open>
  Errors: those of the operating system carry the kind that \<^verbatim>\<open>os.IsNotExist\<close>
  inspects and their text; those built by \<^verbatim>\<open>fmt.Errorf\<close> are their text.
\<close>

datatype errno = ENOENT | EACCES | ENOTDIR | EIO

datatype error = OSError errno string | Errorf string

fun Error_text :: "error \<Rightarrow> string" where
  "Error_text (OSError k msg) = msg"
| "Error_text (Errorf msg) = msg"

fun IsNotExist :: "error option \<Rightarrow> bool" where
  "IsNotExist (Some (OSError ENOENT msg)) = True"
| "IsNotExist e = False"

subsection \<open>PublishService\<close>

text \<open>
  \<^verbatim>\<open>switch args.Service { default: return fmt.Errorf("Unknown service type %v", ...) }\<close>:
  the switch has the default branch only.  Its result is the error it returns, or
  \<open>None\<close> when control leaves the switch and reaches the statements after it.
\<close>

definition PublishService_switch :: "string \<Rightarrow> error option" where
  "PublishService_switch service =
     (case service of _ \<Rightarrow> Some (Errorf (''Unknown service type '' @ service)))"

definition PublishService ::
  "(string \<rightharpoonup> string list) option \<Rightarrow> string \<Rightarrow> string
     \<Rightarrow> (string \<rightharpoonup> string list) option \<times> error option" where
  "PublishService Services service path =
     (let Services1 = (case Services of None \<Rightarrow> Some Map.empty | Some m \<Rightarrow> Some m) in
      case PublishService_switch service of
        Some err \<Rightarrow> (Services1, Some err)
      | None \<Rightarrow>
          (let m = the Services1;
               m1 = (if m service = None then m(service \<mapsto> []) else m);
               m2 = m1(service \<mapsto> the (m1 service) @ [path])
           in (Some m2, None)))"

text \<open>What a reader of the \<^verbatim>\<open>Services\<close> map finds under a service name.\<close>

definition Services_lookup :: "(string \<rightharpoonup> string list) option \<Rightarrow> string \<Rightarrow> string list option" where
  "Services_lookup Services name = (case Services of None \<Rightarrow> None | Some m \<Rightarrow> m name)"

subsection \<open>The signal bus\<close>

text \<open>
  A channel is identified by a number; \<^verbatim>\<open>make(chan ...)\<close> takes the next unused
  one.  \<open>subscriptions\<close>, \<open>subscriber\<close> and \<open>subscriberRet\<close> are the three maps of
  \<^verbatim>\<open>MonstiService\<close>.
\<close>

type_synonym chan = nat

record emitRet =
  Ret :: "bytes option"
  Error :: string

record signal =
  Name :: string
  Args :: "bytes option"
  RetChan :: chan

record bus =
  subscriptions :: "(string \<rightharpoonup> string list) option"
  subscriber :: "(string \<rightharpoonup> chan) option"
  subscriberRet :: "(string \<rightharpoonup> chan) option"
  nextChan :: chan

text \<open>Reading a map that may be \<^verbatim>\<open>nil\<close>: the value and the \<^verbatim>\<open>ok\<close> flag in one option.\<close>

definition map_get :: "('k \<rightharpoonup> 'v) option \<Rightarrow> 'k \<Rightarrow> 'v option" where
  "map_get m k = (case m of None \<Rightarrow> None | Some f \<Rightarrow> f k)"

text \<open>\<^verbatim>\<open>m.subscriptions[name]\<close>: the zero value (the \<^verbatim>\<open>nil\<close> slice) for a missing key.\<close>

definition subscribers_of :: "bus \<Rightarrow> string \<Rightarrow> string list" where
  "subscribers_of m name = (case map_get (subscriptions m) name of None \<Rightarrow> [] | Some ids \<Rightarrow> ids)"

text \<open>
  \<^verbatim>\<open>ConnectSignal\<close>: both maps are made when \<open>subscriptions\<close> is \<^verbatim>\<open>nil\<close>; the subscriber id is
  appended to the signal's list; the subscriber gets a channel unless it has one.
  Storing into \<open>subscriber\<close> while it is \<^verbatim>\<open>nil\<close> panics.
\<close>

definition ConnectSignal :: "bus \<Rightarrow> string \<Rightarrow> string \<Rightarrow> (bus \<times> error option) outcome" where
  "ConnectSignal m sid sig =
     (let m1 = (if subscriptions m = None
                then m\<lparr>subscriptions := Some Map.empty, subscriber := Some Map.empty\<rparr>
                else m);
          subs = the (subscriptions m1);
          m2 = m1\<lparr>subscriptions := Some (subs(sig \<mapsto> subscribers_of m1 sig @ [sid]))\<rparr>
      in case map_get (subscriber m2) sid of
           Some c \<Rightarrow> Returns (m2, None)
         | None \<Rightarrow>
             (case subscriber m2 of
                None \<Rightarrow> Panics NilMapAssignment
              | Some chans \<Rightarrow>
                  Returns (m2\<lparr>subscriber := Some (chans(sid \<mapsto> nextChan m2)),
                               nextChan := Suc (nextChan m2)\<rparr>, None)))"

text \<open>
  \<^verbatim>\<open>WaitSignal\<close>, once the signal has arrived on the subscriber's channel: it
  records the signal's return channel for the subscriber and hands out name and
  arguments.
\<close>

definition WaitSignal_received :: "bus \<Rightarrow> string \<Rightarrow> signal \<Rightarrow> bus \<times> (string \<times> bytes option)" where
  "WaitSignal_received m sub sg =
     (let rets = (case subscriberRet m of None \<Rightarrow> Map.empty | Some r \<Rightarrow> r)
      in (m\<lparr>subscriberRet := Some (rets(sub \<mapsto> RetChan sg))\<rparr>, (Name sg, Args sg)))"

text \<open>
  \<^verbatim>\<open>FinishSignal\<close>: the channel it sends on and the value it sends.  A
  subscriber with no recorded return channel has the \<^verbatim>\<open>nil\<close> channel, on which
  a send blocks for ever: \<open>None\<close>.
\<close>

definition FinishSignal_send :: "bus \<Rightarrow> string \<Rightarrow> string \<Rightarrow> bytes option \<Rightarrow> (chan \<times> emitRet) option" where
  "FinishSignal_send m sid err ret =
     (case map_get (subscriberRet m) sid of
        None \<Rightarrow> None
      | Some c \<Rightarrow> Some (c, \<lparr>Ret = ret, Error = err\<rparr>))"

text \<open>
  The subscribers are the environment of \<^verbatim>\<open>EmitSignal\<close>.  For the delivery made
  in iteration \<open>i\<close> of the loop to subscriber \<open>sid\<close>, the environment says whether
  \<^verbatim>\<open>WaitSignal\<close> is ever called for the subscriber, and with which error and result
  \<^verbatim>\<open>FinishSignal\<close> is then called under the subscriber's id, if ever.
\<close>

datatype reaction = NeverWaits | NeverFinishes | Finishes string "bytes option"

type_synonym subscribers = "nat \<Rightarrow> string \<Rightarrow> string \<times> bytes option \<Rightarrow> reaction"

text \<open>What can be observed of one emission, in the order it happens.\<close>

datatype event =
    Delivered string signal
  | Finished string emitRet

datatype emit_result =
    Blocked
  | Done "bytes option list" "error option"

text \<open>
  The loop of \<^verbatim>\<open>EmitSignal\<close> from iteration \<open>i\<close> on, \<open>ids\<close> being the subscribers
  still to be served and \<open>ret\<close> the result slice.  One iteration: make the return
  channel; send the signal on the subscriber's channel, which completes when the
  subscriber's \<^verbatim>\<open>WaitSignal\<close> receives it (a subscriber without a channel has the
  \<^verbatim>\<open>nil\<close> channel: the send never completes); receive on the return channel,
  which completes when \<^verbatim>\<open>FinishSignal\<close> sends on that very channel; return the
  error if its text is not empty, else store the result at index \<open>i\<close>.
  The goroutine that logs while the emitter waits changes no state and is left out.
\<close>

fun EmitSignal_loop ::
  "subscribers \<Rightarrow> string \<Rightarrow> bytes option \<Rightarrow> nat \<Rightarrow> string list \<Rightarrow> bus \<Rightarrow> bytes option list
     \<Rightarrow> event list \<times> bus \<times> emit_result" where
  "EmitSignal_loop env name args i [] m ret = ([], m, Done ret None)"
| "EmitSignal_loop env name args i (sid # ids) m ret =
     (let retChan = nextChan m;
          m1 = m\<lparr>nextChan := Suc retChan\<rparr>;
          sg = \<lparr>Name = name, Args = args, RetChan = retChan\<rparr>
      in case map_get (subscriber m1) sid of
           None \<Rightarrow> ([], m1, Blocked)
         | Some c \<Rightarrow>
             (case env i sid (name, args) of
                NeverWaits \<Rightarrow> ([], m1, Blocked)
              | NeverFinishes \<Rightarrow>
                  ([Delivered sid sg], fst (WaitSignal_received m1 sid sg), Blocked)
              | Finishes err r \<Rightarrow>
                  (let m2 = fst (WaitSignal_received m1 sid sg) in
                   case FinishSignal_send m2 sid err r of
                     None \<Rightarrow> ([Delivered sid sg], m2, Blocked)
                   | Some (c', er) \<Rightarrow>
                       if c' \<noteq> retChan then ([Delivered sid sg], m2, Blocked)
                       else if length (Error er) > 0 then
                         ([Delivered sid sg, Finished sid er], m2,
                          Done ret (Some (Errorf (''Received error as signal response: ''
                                                   @ Error er))))
                       else
                         (case EmitSignal_loop env name args (Suc i) ids m2 (ret[i := Ret er]) of
                            (evs, m3, res) \<Rightarrow>
                              (Delivered sid sg # Finished sid er # evs, m3, res)))))"

definition EmitSignal ::
  "subscribers \<Rightarrow> bus \<Rightarrow> string \<Rightarrow> bytes option \<Rightarrow> event list \<times> bus \<times> emit_result" where
  "EmitSignal env m name args =
     EmitSignal_loop env name args 0 (subscribers_of m name) m
       (replicate (length (subscribers_of m name)) None)"

text \<open>The subscribers that received the signal, in the order they received it.\<close>

fun delivered_to :: "event list \<Rightarrow> string list" where
  "delivered_to [] = []"
| "delivered_to (Delivered sid sg # evs) = sid # delivered_to evs"
| "delivered_to (Finished sid r # evs) = delivered_to evs"

text \<open>
  Every delivery but the last is followed at once by the same subscriber's finish,
  so no delivery happens while an earlier one is unfinished.
\<close>

fun sequential :: "event list \<Rightarrow> bool" where
  "sequential [] = True"
| "sequential [Delivered sid sg] = True"
| "sequential (Delivered sid sg # Finished sid' r # evs) = (sid = sid' \<and> sequential evs)"
| "sequential evs = False"

subsection \<open>What the daemon calls but does not define\<close>

text \<open>
  Values decoded by \<^verbatim>\<open>json.Unmarshal\<close> into an \<^verbatim>\<open>interface{}\<close>: \<^verbatim>\<open>nil\<close>, a bool, a
  \<^verbatim>\<open>float64\<close>, a string, a slice, or a \<^verbatim>\<open>map[string]interface{}\<close> (its keys with
  their values; a key occurs once).
\<close>

typedecl float64

datatype json =
    JNull
  | JBool bool
  | JNumber float64
  | JString string
  | JArray "json list"
  | JObject "(string \<times> json) list"

text \<open>
  Functions of the Go library and of Monsti's settings package that the daemon
  calls; they are parameters of the model.  \<open>Join\<close> is \<^verbatim>\<open>filepath.Join\<close>, \<open>Dir\<close> is
  \<^verbatim>\<open>filepath.Dir\<close>, \<open>Quote\<close> is what the verb \<^verbatim>\<open>%q\<close> prints for a string, \<open>Unmarshal\<close>
  and \<open>Marshal\<close> are those of \<^verbatim>\<open>encoding/json\<close>, and the last two map a site name to
  its directory of nodes and of configuration files.
\<close>

record extern =
  Join :: "string list \<Rightarrow> string"
  Dir :: "string \<Rightarrow> string"
  Quote :: "string \<Rightarrow> string"
  Unmarshal :: "bytes \<Rightarrow> error + json"
  Marshal :: "json \<Rightarrow> error + bytes"
  GetSiteNodesPath :: "string \<Rightarrow> string"
  GetSiteConfigPath :: "string \<Rightarrow> string"

text \<open>
  The file system as the daemon observes it: what \<^verbatim>\<open>ioutil.ReadFile\<close> and
  \<^verbatim>\<open>ioutil.ReadDir\<close> (entries as name and \<^verbatim>\<open>IsDir\<close>) return for a path, and the error
  with which \<^verbatim>\<open>os.MkdirAll\<close> and \<^verbatim>\<open>ioutil.WriteFile\<close> would fail there.
\<close>

record filesystem =
  ReadFile :: "string \<Rightarrow> bytes option \<times> error option"
  ReadDir :: "string \<Rightarrow> (string \<times> bool) list \<times> error option"
  MkdirAll :: "string \<Rightarrow> error option"
  WriteFile_error :: "string \<Rightarrow> error option"

text \<open>
  A write that succeeds: the path then reads as the content.  (What a failed
  write leaves behind, and the new directory entries, are not modelled.)
\<close>

definition WriteFile :: "filesystem \<Rightarrow> string \<Rightarrow> bytes \<Rightarrow> filesystem \<times> error option" where
  "WriteFile fs path content =
     (case WriteFile_error fs path of
        Some err \<Rightarrow> (fs, Some err)
      | None \<Rightarrow> (fs\<lparr>ReadFile := (ReadFile fs)(path := (Some content, None))\<rparr>, None))"

text \<open>
  \<^verbatim>\<open>bytes.Replace(s, old, new, 1)\<close> for a one-byte \<open>old\<close>: \<open>Replace1\<close> replaces the
  first occurrence.  Where nothing is replaced, Go returns the copy
  \<^verbatim>\<open>append([]byte(nil), s...)\<close>, which is \<^verbatim>\<open>nil\<close> for an empty \<open>s\<close>.
\<close>

fun Replace1 :: "bytes \<Rightarrow> char \<Rightarrow> bytes \<Rightarrow> bytes" where
  "Replace1 [] old new = []"
| "Replace1 (b # bs) old new = (if b = old then new @ bs else b # Replace1 bs old new)"

definition Replace :: "bytes option \<Rightarrow> char \<Rightarrow> bytes \<Rightarrow> bytes option" where
  "Replace s old new =
     (case s of
        None \<Rightarrow> None
      | Some b \<Rightarrow> if b = [] then None else Some (Replace1 b old new))"

text \<open>
  \<^verbatim>\<open>strings.Split(s, ".")\<close>, and \<^verbatim>\<open>strings.SplitN(s, ".", 2)\<close>, which splits at the
  first separator only.
\<close>

fun Split :: "string \<Rightarrow> char \<Rightarrow> string list" where
  "Split [] sep = [[]]"
| "Split (c # cs) sep =
     (if c = sep then [] # Split cs sep
      else (case Split cs sep of [] \<Rightarrow> [[c]] | w # ws \<Rightarrow> (c # w) # ws))"

definition SplitN2 :: "string \<Rightarrow> char \<Rightarrow> string list" where
  "SplitN2 s sep =
     (if sep \<in> set s then [takeWhile (\<lambda>c. c \<noteq> sep) s, tl (dropWhile (\<lambda>c. c \<noteq> sep) s)]
      else [s])"

subsection \<open>The node store\<close>

text \<open>
  \<^verbatim>\<open>getNode\<close>: \<^verbatim>\<open>path[1:]\<close> panics on the empty path.  A file that does not exist
  gives \<^verbatim>\<open>nil, nil\<close>; any other error is returned with whatever was read; else the
  first \<^verbatim>\<open>{\<close> of the content is replaced by \<^verbatim>\<open>{"Path":<quoted path>,\<close> (an empty
  file gives \<^verbatim>\<open>nil\<close>, as \<open>Replace\<close> does).
\<close>

definition pathJSON :: "extern \<Rightarrow> string \<Rightarrow> bytes" where
  "pathJSON ext path = ''{\"Path\":'' @ Quote ext path @ '',''"

definition getNode ::
  "extern \<Rightarrow> filesystem \<Rightarrow> string \<Rightarrow> string \<Rightarrow> (bytes option \<times> error option) outcome" where
  "getNode ext fs root path =
     (if path = [] then Panics SliceBoundsOutOfRange
      else
        (let node_path = Join ext [root, tl path, ''node.json''];
             (node, err) = ReadFile fs node_path
         in if IsNotExist err then Returns (None, None)
            else if err \<noteq> None then Returns (node, err)
            else Returns (Replace node (CHR ''{'') (pathJSON ext path), err)))"

text \<open>
  The loop of \<^verbatim>\<open>getChildren\<close> over the directory's entries.  \<open>err\<close> is the variable
  \<^verbatim>\<open>err\<close> of \<^verbatim>\<open>getChildren\<close>, set by \<^verbatim>\<open>ioutil.ReadDir\<close>: the error of \<^verbatim>\<open>getNode\<close> is
  assigned to the blank identifier (\<^verbatim>\<open>node, _ := getNode(...)\<close>), so the test
  \<^verbatim>\<open>err != nil\<close> in the loop reads the former.
\<close>

definition placeholder :: "extern \<Rightarrow> string \<Rightarrow> bytes" where
  "placeholder ext path = ''{\"Path\":'' @ Quote ext path @ '',\"Type\":\"core.Path\"}''"

fun getChildren_loop ::
  "extern \<Rightarrow> filesystem \<Rightarrow> string \<Rightarrow> string \<Rightarrow> error option \<Rightarrow> (string \<times> bool) list
     \<Rightarrow> bytes list \<Rightarrow> (bytes list \<times> error option) outcome" where
  "getChildren_loop ext fs root path err [] nodes = Returns (nodes, err)"
| "getChildren_loop ext fs root path err ((file_Name, file_IsDir) # files) nodes =
     (case getNode ext fs root (Join ext [path, file_Name]) of
        Panics p \<Rightarrow> Panics p
      | Returns (node, _) \<Rightarrow>
          if err \<noteq> None then Returns ([], err)
          else (case node of
                  Some n \<Rightarrow> getChildren_loop ext fs root path err files (nodes @ [n])
                | None \<Rightarrow>
                    if file_IsDir
                    then getChildren_loop ext fs root path err files
                           (nodes @ [placeholder ext (Join ext [path, file_Name])])
                    else getChildren_loop ext fs root path err files nodes))"

definition getChildren ::
  "extern \<Rightarrow> filesystem \<Rightarrow> string \<Rightarrow> string \<Rightarrow> (bytes list \<times> error option) outcome" where
  "getChildren ext fs root path =
     (let (files, err) = ReadDir fs (Join ext [root, path])
      in if err \<noteq> None then Returns ([], err)
         else getChildren_loop ext fs root path err files [])"

definition GetChildren ::
  "extern \<Rightarrow> filesystem \<Rightarrow> string \<Rightarrow> string \<Rightarrow> (bytes list \<times> error option) outcome" where
  "GetChildren ext fs Site Path = getChildren ext fs (GetSiteNodesPath ext Site) Path"

definition GetNode ::
  "extern \<Rightarrow> filesystem \<Rightarrow> string \<Rightarrow> string \<Rightarrow> (bytes option \<times> error option) outcome" where
  "GetNode ext fs Site Path = getNode ext fs (GetSiteNodesPath ext Site) Path"

text \<open>
  \<^verbatim>\<open>WriteNodeData\<close>: the directory of the file is made, then the file is written;
  either failure is returned under its own message.
\<close>

definition WriteNodeData ::
  "extern \<Rightarrow> filesystem \<Rightarrow> string \<Rightarrow> string \<Rightarrow> string \<Rightarrow> bytes
     \<Rightarrow> (filesystem \<times> error option) outcome" where
  "WriteNodeData ext fs Site Path File Content =
     (if Path = [] then Panics SliceBoundsOutOfRange
      else
        (let site = GetSiteNodesPath ext Site;
             path = Join ext [site, tl Path, File]
         in case MkdirAll fs (Dir ext path) of
              Some err \<Rightarrow>
                Returns (fs, Some (Errorf (''Could not create node directory: '' @ Error_text err)))
            | None \<Rightarrow>
                (case WriteFile fs path Content of
                   (fs', Some err) \<Rightarrow>
                     Returns (fs', Some (Errorf (''Could not write node data: '' @ Error_text err)))
                 | (fs', None) \<Rightarrow> Returns (fs', None))))"

subsection \<open>Site configuration\<close>

text \<open>
  The loop of \<^verbatim>\<open>getConfig\<close> over the parts of the dotted name: it stops at an
  empty part; a target that is not a map, or a map without the key, ends the
  walk with \<^verbatim>\<open>nil\<close>.
\<close>

fun getConfig_walk :: "json \<Rightarrow> string list \<Rightarrow> json" where
  "getConfig_walk target [] = target"
| "getConfig_walk target (sub # subs) =
     (if sub = [] then target
      else (case target of
              JObject kvs \<Rightarrow>
                (case map_of kvs sub of
                   None \<Rightarrow> JNull
                 | Some v \<Rightarrow> getConfig_walk v subs)
            | _ \<Rightarrow> JNull))"

definition getConfig :: "extern \<Rightarrow> filesystem \<Rightarrow> string \<Rightarrow> string \<Rightarrow> error + bytes option" where
  "getConfig ext fs path name =
     (case ReadFile fs path of
        (content, Some err) \<Rightarrow>
          if IsNotExist (Some err) then Inr None
          else Inl (Errorf (''Could not read configuration: '' @ Error_text err))
      | (content, None) \<Rightarrow>
          (case Unmarshal ext (case content of None \<Rightarrow> [] | Some b \<Rightarrow> b) of
             Inl err \<Rightarrow> Inl (Errorf (''Could not parse configuration: '' @ Error_text err))
           | Inr target \<Rightarrow>
               (case Marshal ext
                       (JObject [(''Value'', getConfig_walk target (Split name (CHR ''.'')))]) of
                  Inl err \<Rightarrow> Inl (Errorf (''Could not encode configuration: '' @ Error_text err))
                | Inr ret \<Rightarrow> Inr (Some ret))))"

text \<open>
  The value a dotted name stands for, in other words than the loop's: from the
  decoded document, go to the member named by each part in turn, where a value
  that is no object, or has no such member, has the member \<^verbatim>\<open>nil\<close>.  \<open>join_sep\<close>
  writes the parts of a name with the separator between them.
\<close>

fun join_sep :: "char \<Rightarrow> string list \<Rightarrow> string" where
  "join_sep sep [] = []"
| "join_sep sep [p] = p"
| "join_sep sep (p # q # ps) = p @ [sep] @ join_sep sep (q # ps)"

definition child :: "json \<Rightarrow> string \<Rightarrow> json" where
  "child t k =
     (case t of
        JObject kvs \<Rightarrow> (case map_of kvs k of None \<Rightarrow> JNull | Some v \<Rightarrow> v)
      | _ \<Rightarrow> JNull)"

text \<open>
  \<^verbatim>\<open>GetSiteConfig\<close>: \<^verbatim>\<open>parts[0]\<close> and \<^verbatim>\<open>parts[1]\<close> of
  \<^verbatim>\<open>strings.SplitN(args.Name, ".", 2)\<close> are read without a test of the length.
\<close>

definition GetSiteConfig ::
  "extern \<Rightarrow> filesystem \<Rightarrow> string \<Rightarrow> string \<Rightarrow> (error + bytes option) outcome" where
  "GetSiteConfig ext fs Site dottedName =
     (let configPath = GetSiteConfigPath ext Site;
          parts = SplitN2 dottedName (CHR ''.'')
      in if length parts \<le> 0 then Panics IndexOutOfRange
         else if length parts \<le> 1 then Panics IndexOutOfRange
         else Returns (getConfig ext fs (Join ext [configPath, (parts ! 0) @ ''.json'']) (parts ! 1)))"

subsection \<open>The registry of node types\<close>

text \<open>
  Node types and field definitions are objects in memory, held by pointer: a
  reference is an address, and an address that holds no object is a pointer
  that cannot be dereferenced (\<^verbatim>\<open>nil\<close>).  The fields of the two structs are those
  the specification lists; \<open>Fields\<close> is the slice of pointers to field definitions.
  The node type handed to \<^verbatim>\<open>RegisterNodeType\<close> was decoded from the request, so no
  other node type shares the array of its \<open>Fields\<close> slice, and the slice is kept
  inside the object.
\<close>

type_synonym ref = nat

datatype field_type = NoFieldType | TextFieldType | HTMLFieldType | FileFieldType | RefFieldType

record FieldConfig =
  Id_f :: string
  Required :: bool
  Name_f :: "string \<rightharpoonup> string"
  Type_f :: field_type

record NodeType =
  Id_t :: string
  Hide :: bool
  AddableTo :: "string list"
  Name_t :: "string \<rightharpoonup> string"
  Fields :: "ref list"

record memory =
  node_types :: "ref \<rightharpoonup> NodeType"
  field_configs :: "ref \<rightharpoonup> FieldConfig"

text \<open>\<^verbatim>\<open>Settings.Config\<close>: the two maps of the registry, each possibly \<^verbatim>\<open>nil\<close>.\<close>

record Config =
  NodeTypes :: "(string \<rightharpoonup> ref) option"
  NodeFields :: "(string \<rightharpoonup> ref) option"

text \<open>\<^verbatim>\<open>nodeType.Fields[i] = existing\<close>, for the node type at \<open>p\<close>.\<close>

definition set_field :: "memory \<Rightarrow> ref \<Rightarrow> nat \<Rightarrow> ref \<Rightarrow> memory" where
  "set_field mem p i r =
     (case node_types mem p of
        None \<Rightarrow> mem
      | Some nt \<Rightarrow> mem\<lparr>node_types := (node_types mem)(p \<mapsto> nt\<lparr>Fields := (Fields nt)[i := r]\<rparr>)\<rparr>)"

text \<open>
  The loop of \<^verbatim>\<open>RegisterNodeType\<close> over the fields of the node type at \<open>p\<close>, from
  index \<open>i\<close> on.  A field whose id is known is replaced in the node type by the
  known one; any other becomes the canonical definition of its id.
\<close>

fun registerFields :: "ref \<Rightarrow> nat \<Rightarrow> ref list \<Rightarrow> memory \<times> Config \<Rightarrow> (memory \<times> Config) outcome" where
  "registerFields p i [] (mem, c) = Returns (mem, c)"
| "registerFields p i (field # rest) (mem, c) =
     (case field_configs mem field of
        None \<Rightarrow> Panics NilDereference
      | Some f \<Rightarrow>
          (case map_get (NodeFields c) (Id_f f) of
             Some existing \<Rightarrow> registerFields p (Suc i) rest (set_field mem p i existing, c)
           | None \<Rightarrow>
               (case NodeFields c of
                  None \<Rightarrow> Panics NilMapAssignment
                | Some nf \<Rightarrow>
                    registerFields p (Suc i) rest
                      (mem, c\<lparr>NodeFields := Some (nf(Id_f f \<mapsto> field))\<rparr>))))"

fun RegisterNodeType ::
  "ref \<Rightarrow> memory \<times> Config \<Rightarrow> (memory \<times> Config \<times> error option) outcome" where
  "RegisterNodeType p (mem, c) =
     (case node_types mem p of
        None \<Rightarrow> Panics NilDereference
      | Some nodeType \<Rightarrow>
          (case map_get (NodeTypes c) (Id_t nodeType) of
             Some t \<Rightarrow>
               Returns (mem, c, Some (Errorf (''Node type with id '' @ Id_t nodeType
                                                @ '' does already exist'')))
           | None \<Rightarrow>
               (let c1 = (if NodeTypes c = None
                          then c\<lparr>NodeTypes := Some Map.empty, NodeFields := Some Map.empty\<rparr>
                          else c);
                    c2 = c1\<lparr>NodeTypes := Some ((the (NodeTypes c1))(Id_t nodeType \<mapsto> p))\<rparr>
                in case registerFields p 0 (Fields nodeType) (mem, c2) of
                     Panics e \<Rightarrow> Panics e
                   | Returns (mem', c') \<Rightarrow> Returns (mem', c', None))))"

text \<open>\<^verbatim>\<open>GetNodeType\<close>: a copy of the registered node type, or an error.\<close>

fun GetNodeType :: "extern \<Rightarrow> memory \<times> Config \<Rightarrow> string \<Rightarrow> (error + NodeType) outcome" where
  "GetNodeType ext (mem, c) nodeTypeID =
     (case map_get (NodeTypes c) nodeTypeID of
        Some p \<Rightarrow>
          (case node_types mem p of
             None \<Rightarrow> Panics NilDereference
           | Some nodeType \<Rightarrow> Returns (Inr nodeType))
      | None \<Rightarrow> Returns (Inl (Errorf (''Unknown node type '' @ Quote ext nodeTypeID))))"

text \<open>
  A run of calls of \<^verbatim>\<open>RegisterNodeType\<close> that all succeed, as at the start of a
  module, and the registry it ends in.
\<close>

fun register_all :: "ref list \<Rightarrow> memory \<times> Config \<Rightarrow> (memory \<times> Config) option" where
  "register_all [] s = Some s"
| "register_all (p # ps) s =
     (case RegisterNodeType p s of
        Returns (mem, c, None) \<Rightarrow> register_all ps (mem, c)
      | _ \<Rightarrow> None)"

text \<open>
  \<^verbatim>\<open>findAddableNodeTypes\<close>.  The test of one \<open>addableTo\<close> entry, its three
  disjuncts evaluated from the left: \<^verbatim>\<open>addableTo[len(addableTo)-1]\<close> panics on the
  empty string, and \<^verbatim>\<open>nodeType[0:len(addableTo)]\<close> panics when \<open>addableTo\<close> is the
  longer string.
\<close>

definition addable_test :: "string \<Rightarrow> string \<Rightarrow> bool outcome" where
  "addable_test addableTo nodeType =
     (if addableTo = ''.'' then Returns True
      else if addableTo = nodeType then Returns True
      else if length addableTo = 0 then Panics IndexOutOfRange
      else if addableTo ! (length addableTo - 1) \<noteq> CHR ''.'' then Returns False
      else if length addableTo > length nodeType then Panics SliceBoundsOutOfRange
      else Returns (take (length addableTo) nodeType = addableTo))"

text \<open>The inner loop: whether some entry passes the test (it stops at the first).\<close>

fun addable_any :: "string list \<Rightarrow> string \<Rightarrow> bool outcome" where
  "addable_any [] nodeType = Returns False"
| "addable_any (addableTo # rest) nodeType =
     (case addable_test addableTo nodeType of
        Panics e \<Rightarrow> Panics e
      | Returns True \<Rightarrow> Returns True
      | Returns False \<Rightarrow> addable_any rest nodeType)"

text \<open>
  The outer loop, over the node types in the order in which the \<^verbatim>\<open>range\<close> over
  the map yields them (Go leaves that order open).
\<close>

fun findAddableNodeTypes_loop :: "string \<Rightarrow> NodeType option list \<Rightarrow> string list \<Rightarrow> string list outcome" where
  "findAddableNodeTypes_loop nodeType [] types = Returns types"
| "findAddableNodeTypes_loop nodeType (None # others) types = Panics NilDereference"
| "findAddableNodeTypes_loop nodeType (Some otherNodeType # others) types =
     (case addable_any (AddableTo otherNodeType) nodeType of
        Panics e \<Rightarrow> Panics e
      | Returns True \<Rightarrow> findAddableNodeTypes_loop nodeType others (types @ [Id_t otherNodeType])
      | Returns False \<Rightarrow> findAddableNodeTypes_loop nodeType others types)"

definition findAddableNodeTypes :: "string \<Rightarrow> NodeType option list \<Rightarrow> string list outcome" where
  "findAddableNodeTypes nodeType nodeTypes = findAddableNodeTypes_loop nodeType nodeTypes []"

text \<open>
  \<^verbatim>\<open>GetAddableNodeTypes\<close>; \<open>order\<close> lists the keys of \<^verbatim>\<open>Config.NodeTypes\<close> in the
  order of the iteration.  The result is the list of ids and the \<^verbatim>\<open>nil\<close> error.
\<close>

definition iteration_order :: "('k \<rightharpoonup> 'v) option \<Rightarrow> 'k list \<Rightarrow> bool" where
  "iteration_order m order =
     (distinct order \<and> set order = (case m of None \<Rightarrow> {} | Some f \<Rightarrow> dom f))"

fun GetAddableNodeTypes ::
  "memory \<times> Config \<Rightarrow> string list \<Rightarrow> string \<Rightarrow> string \<Rightarrow> (string list \<times> error option) outcome" where
  "GetAddableNodeTypes (mem, c) order Site NodeType =
     (case findAddableNodeTypes NodeType
             (map (\<lambda>k. case map_get (NodeTypes c) k of None \<Rightarrow> None | Some p \<Rightarrow> node_types mem p) order) of
        Panics e \<Rightarrow> Panics e
      | Returns types \<Rightarrow> Returns (types, None))"

subsection \<open>Concrete instances for evaluation\<close>

text \<open>
  An instance of the external functions that agrees with Go on the inputs of the
  examples below: \<open>example_Join\<close> joins the non-empty elements with a slash and
  squeezes repeated slashes (as \<^verbatim>\<open>filepath.Join\<close> does for elements free of \<^verbatim>\<open>.\<close>
  and \<^verbatim>\<open>..\<close> components and of a trailing slash), \<open>example_Dir\<close> drops the last
  component, \<open>example_Quote\<close> puts double quotes around a string (as \<^verbatim>\<open>%q\<close> does for
  printable ASCII without quote or backslash), and the two JSON functions know
  the documents of the examples only.
\<close>

fun squeeze :: "string \<Rightarrow> string" where
  "squeeze (a # b # cs) =
     (if a = CHR ''/'' \<and> b = CHR ''/'' then squeeze (b # cs) else a # squeeze (b # cs))"
| "squeeze cs = cs"

fun join_slash :: "string list \<Rightarrow> string" where
  "join_slash [] = []"
| "join_slash [x] = x"
| "join_slash (x # xs) = x @ ''/'' @ join_slash xs"

definition example_Join :: "string list \<Rightarrow> string" where
  "example_Join elems = squeeze (join_slash (filter (\<lambda>e. e \<noteq> []) elems))"

definition example_Dir :: "string \<Rightarrow> string" where
  "example_Dir path = rev (tl (dropWhile (\<lambda>c. c \<noteq> CHR ''/'') (rev path)))"

definition example_Quote :: "string \<Rightarrow> string" where
  "example_Quote s = ''\"'' @ s @ ''\"''"

definition example_Unmarshal :: "bytes \<Rightarrow> error + json" where
  "example_Unmarshal b =
     (if b = ''{\"Site\":{\"Title\":\"Home\"}}''
      then Inr (JObject [(''Site'', JObject [(''Title'', JString ''Home'')])])
      else Inl (Errorf ''invalid character''))"

fun example_Marshal :: "json \<Rightarrow> error + bytes" where
  "example_Marshal (JObject [(k, JString v)]) = Inr (''{\"'' @ k @ ''\":\"'' @ v @ ''\"}'')"
| "example_Marshal (JObject [(k, JNull)]) = Inr (''{\"'' @ k @ ''\":null}'')"
| "example_Marshal j = Inl (Errorf ''unsupported value'')"

definition example_extern :: extern where
  "example_extern =
     \<lparr>Join = example_Join, Dir = example_Dir, Quote = example_Quote,
      Unmarshal = example_Unmarshal, Marshal = example_Marshal,
      GetSiteNodesPath = (\<lambda>site. ''/srv/'' @ site @ ''/nodes''),
      GetSiteConfigPath = (\<lambda>site. ''/srv/'' @ site @ ''/config'')\<rparr>"

text \<open>A file system with no files, in which every directory can be made and every file written.\<close>

definition empty_fs :: filesystem where
  "empty_fs =
     \<lparr>ReadFile = (\<lambda>p. (None, Some (OSError ENOENT (''open '' @ p @ '': no such file or directory'')))),
      ReadDir = (\<lambda>p. ([], Some (OSError ENOENT (''open '' @ p @ '': no such file or directory'')))),
      MkdirAll = (\<lambda>p. None),
      WriteFile_error = (\<lambda>p. None)\<rparr>"

text \<open>
  Site \<^verbatim>\<open>example\<close> with the node \<^verbatim>\<open>/a/b\<close> and the directory \<^verbatim>\<open>/a/c\<close>, whose
  \<^verbatim>\<open>node.json\<close> exists but may not be read.
\<close>

definition unreadable_fs :: filesystem where
  "unreadable_fs =
     empty_fs
       \<lparr>ReadFile := (ReadFile empty_fs)
          (''/srv/example/nodes/a/b/node.json'' := (Some ''{\"Type\":\"core.Document\"}'', None),
           ''/srv/example/nodes/a/c/node.json'' :=
             (None, Some (OSError EACCES ''open /srv/example/nodes/a/c/node.json: permission denied''))),
        ReadDir := (ReadDir empty_fs)
          (''/srv/example/nodes/a'' := ([(''b'', True), (''c'', True)], None))\<rparr>"

text \<open>Site \<^verbatim>\<open>example\<close> with the configuration file of module \<^verbatim>\<open>core\<close>.\<close>

definition config_fs :: filesystem where
  "config_fs =
     empty_fs
       \<lparr>ReadFile := (ReadFile empty_fs)
          (''/srv/example/config/core.json'' :=
             (Some ''{\"Site\":{\"Title\":\"Home\"}}'', None))\<rparr>"

text \<open>The bus of a daemon that has just started, and the bus a call leaves behind.\<close>

definition empty_bus :: bus where
  "empty_bus = \<lparr>subscriptions = None, subscriber = None, subscriberRet = None, nextChan = 0\<rparr>"

definition connected :: "bus \<Rightarrow> string \<Rightarrow> string \<Rightarrow> bus" where
  "connected m sid sig = (case ConnectSignal m sid sig of Returns (m', e) \<Rightarrow> m' | Panics p \<Rightarrow> m)"

text \<open>Subscribers that all answer at once, without an error and without a result.\<close>

definition prompt_subscribers :: subscribers where
  "prompt_subscribers = (\<lambda>i sid sg. Finishes [] None)"

text \<open>Subscribers of which the one served in iteration 1 reports the error \<^verbatim>\<open>boom\<close>.\<close>

definition failing_subscribers :: subscribers where
  "failing_subscribers = (\<lambda>i sid sg. if i = 1 then Finishes ''boom'' None else Finishes [] (Some ''ok''))"

text \<open>
  Node types addable at the root, under the namespace \<^verbatim>\<open>ns.\<close>, under the type
  \<^verbatim>\<open>ns.specific\<close> only, and one whose entry \<^verbatim>\<open>ns\<close> lacks the trailing dot.
\<close>

definition root_type :: NodeType where
  "root_type = \<lparr>Id_t = ''core.Document'', Hide = False, AddableTo = [''.''],
                 Name_t = Map.empty, Fields = []\<rparr>"

definition ns_type :: NodeType where
  "ns_type = \<lparr>Id_t = ''ns.Child'', Hide = False, AddableTo = [''ns.''],
               Name_t = Map.empty, Fields = []\<rparr>"

definition exact_type :: NodeType where
  "exact_type = \<lparr>Id_t = ''ns.Detail'', Hide = False, AddableTo = [''ns.specific''],
                  Name_t = Map.empty, Fields = []\<rparr>"

definition bare_type :: NodeType where
  "bare_type = \<lparr>Id_t = ''ns.Bare'', Hide = False, AddableTo = [''ns''],
                 Name_t = Map.empty, Fields = []\<rparr>"

text \<open>A registry that holds \<open>ns_type\<close> alone.\<close>

definition ns_registry :: "memory \<times> Config" where
  "ns_registry =
     (\<lparr>node_types = [0 \<mapsto> ns_type], field_configs = Map.empty\<rparr>,
      \<lparr>NodeTypes = Some [''ns.Child'' \<mapsto> 0], NodeFields = Some Map.empty\<rparr>)"

text \<open>
  The states of the bus that \<^verbatim>\<open>ConnectSignal\<close> produces from the start: the two
  maps it makes together are both there or both \<^verbatim>\<open>nil\<close>, and every subscriber of
  a signal has its channel.
\<close>

definition bus_inv :: "bus \<Rightarrow> bool" where
  "bus_inv m =
     ((subscriptions m = None \<longleftrightarrow> subscriber m = None)
      \<and> (\<forall>sg. \<forall>s \<in> set (subscribers_of m sg). map_get (subscriber m) s \<noteq> None))"

text \<open>Subscribers \<^verbatim>\<open>S1\<close>, \<^verbatim>\<open>S2\<close>, \<^verbatim>\<open>S3\<close> connected to the signal \<^verbatim>\<open>X\<close>, in that order.\<close>

definition three_bus :: bus where
  "three_bus = connected (connected (connected empty_bus ''S1'' ''X'') ''S2'' ''X'') ''S3'' ''X''"

text \<open>The field definition that the \<open>i\<close>-th entry of \<open>Fields\<close> of the node type at \<open>p\<close> points to.\<close>

definition field_of :: "memory \<Rightarrow> ref \<Rightarrow> nat \<Rightarrow> FieldConfig option" where
  "field_of mem p i =
     (case node_types mem p of
        None \<Rightarrow> None
      | Some nt \<Rightarrow> if i < length (Fields nt) then field_configs mem (Fields nt ! i) else None)"

text \<open>
  The node types that \<^verbatim>\<open>initNodeTypes\<close> registers first, with one field each kept:
  the document type declares \<^verbatim>\<open>core.Title\<close> in full (at address 10), the file
  type declares \<^verbatim>\<open>{Id: "core.Title"}\<close> (at address 20) and \<^verbatim>\<open>core.File\<close> (at
  address 21).  A third node type (at address 3) has the id of the document type
  again, and the path type (at address 4) has no fields.  \<open>registered\<close> is the
  registry that a call leaves behind.
\<close>

definition title_field :: FieldConfig where
  "title_field = \<lparr>Id_f = ''core.Title'', Required = True, Name_f = [''en'' \<mapsto> ''Title''],
                   Type_f = TextFieldType\<rparr>"

definition title_stub :: FieldConfig where
  "title_stub = \<lparr>Id_f = ''core.Title'', Required = False, Name_f = Map.empty,
                  Type_f = NoFieldType\<rparr>"

definition file_field :: FieldConfig where
  "file_field = \<lparr>Id_f = ''core.File'', Required = True, Name_f = [''en'' \<mapsto> ''File''],
                  Type_f = FileFieldType\<rparr>"

definition documentType :: NodeType where
  "documentType = \<lparr>Id_t = ''core.Document'', Hide = False, AddableTo = [''.''],
                    Name_t = [''en'' \<mapsto> ''Document''], Fields = [10]\<rparr>"

definition fileType :: NodeType where
  "fileType = \<lparr>Id_t = ''core.File'', Hide = False, AddableTo = [''.''],
                Name_t = [''en'' \<mapsto> ''File''], Fields = [20, 21]\<rparr>"

definition pathType :: NodeType where
  "pathType = \<lparr>Id_t = ''core.Path'', Hide = True, AddableTo = [],
                Name_t = [''en'' \<mapsto> ''Path''], Fields = []\<rparr>"

definition start_memory :: memory where
  "start_memory =
     \<lparr>node_types = [1 \<mapsto> documentType, 2 \<mapsto> fileType,
                     3 \<mapsto> documentType\<lparr>AddableTo := [], Fields := [21]\<rparr>,
                     4 \<mapsto> pathType],
      field_configs = [10 \<mapsto> title_field, 20 \<mapsto> title_stub, 21 \<mapsto> file_field]\<rparr>"

definition start_config :: Config where
  "start_config = \<lparr>NodeTypes = None, NodeFields = None\<rparr>"

definition registered :: "ref \<Rightarrow> memory \<times> Config \<Rightarrow> memory \<times> Config" where
  "registered p s = (case RegisterNodeType p s of Returns (mem, c, e) \<Rightarrow> (mem, c) | Panics e \<Rightarrow> s)"

definition start_registry :: "memory \<times> Config" where
  "start_registry = (start_memory, start_config)"

text \<open>
  A registry of the three node types above, and one that holds \<open>bare_type\<close> alone.
\<close>

definition three_registry :: "memory \<times> Config" where
  "three_registry =
     (\<lparr>node_types = [1 \<mapsto> root_type, 2 \<mapsto> ns_type, 3 \<mapsto> exact_type],
        field_configs = Map.empty\<rparr>,
      \<lparr>NodeTypes = Some [''core.Document'' \<mapsto> 1, ''ns.Child'' \<mapsto> 2, ''ns.Detail'' \<mapsto> 3],
        NodeFields = Some Map.empty\<rparr>)"

definition bare_registry :: "memory \<times> Config" where
  "bare_registry =
     (\<lparr>node_types = [4 \<mapsto> bare_type], field_configs = Map.empty\<rparr>,
      \<lparr>NodeTypes = Some [''ns.Bare'' \<mapsto> 4], NodeFields = Some Map.empty\<rparr>)"

section \<open>Properties\<close>

subsection \<open>PublishService\<close>

text \<open>
  C10 (as amended).  \<^verbatim>\<open>PublishService\<close> rejects every request with the error
  \<^verbatim>\<open>Unknown service type <Service>\<close>, and no path is ever registered: what the
  \<^verbatim>\<open>Services\<close> map holds under any name is what it held before.  The map itself is
  made by the call when it was \<^verbatim>\<open>nil\<close>, and is otherwise left as it was.
\<close>

theorem PublishService_rejects_every_request:
  "snd (PublishService Services service path) = Some (Errorf (''Unknown service type '' @ service))
   \<and> Services_lookup (fst (PublishService Services service path)) name = Services_lookup Services name
   \<and> fst (PublishService Services service path)
       = (case Services of None \<Rightarrow> Some Map.empty | Some m \<Rightarrow> Some m)"
  by (simp add: PublishService_def PublishService_switch_def Services_lookup_def split: option.splits)

text \<open>
  C10 as stated says that the \<^verbatim>\<open>Services\<close> state is unchanged by every call; the
  first call of a daemon, whose map is still \<^verbatim>\<open>nil\<close>, leaves a map behind.
\<close>

theorem PublishService_makes_the_map:
  "fst (PublishService None ''mail'' ''/run/mail.socket'') \<noteq> None"
  by (simp add: PublishService_def PublishService_switch_def)

subsection \<open>Addable node types\<close>

text \<open>
  C4.  The claim says that \<^verbatim>\<open>GetAddableNodeTypes\<close> returns a list for every parent
  type id, the empty id and ids shorter than a registered pattern included.  With
  the pattern \<^verbatim>\<open>ns.\<close> registered, the parent type ids \<^verbatim>\<open>a\<close> and the empty id make
  \<^verbatim>\<open>nodeType[0:len(addableTo)]\<close> slice beyond the end of the id: the call panics.
\<close>

theorem GetAddableNodeTypes_panics_on_short_id:
  "GetAddableNodeTypes ns_registry [''ns.Child''] ''example'' ''a'' = Panics SliceBoundsOutOfRange
   \<and> GetAddableNodeTypes ns_registry [''ns.Child''] ''example'' [] = Panics SliceBoundsOutOfRange
   \<and> iteration_order (NodeTypes (snd ns_registry)) [''ns.Child'']"
  by (simp add: ns_registry_def ns_type_def findAddableNodeTypes_def addable_test_def
      map_get_def iteration_order_def)

lemma findAddableNodeTypes_loop_all:
  "\<forall>t \<in> set ts. \<exists>x. t = Some x \<and> addable_any (AddableTo x) n = Returns True \<Longrightarrow>
   findAddableNodeTypes_loop n ts acc = Returns (acc @ map (\<lambda>t. Id_t (the t)) ts)"
proof (induction ts arbitrary: acc)
  case Nil
  then show ?case by simp
next
  case (Cons t ts)
  then obtain x where x: "t = Some x" "addable_any (AddableTo x) n = Returns True" by auto
  from Cons have "findAddableNodeTypes_loop n ts (acc @ [Id_t x])
      = Returns ((acc @ [Id_t x]) @ map (\<lambda>t. Id_t (the t)) ts)"
    by simp
  with x show ?case by simp
qed

lemma findAddableNodeTypes_three:
  assumes "AddableTo t1 = [''.'']" "AddableTo t2 = [''ns.'']" "AddableTo t3 = [''ns.specific'']"
    and "mset ts = {#Some t1, Some t2, Some t3#}"
  shows "\<exists>ids. findAddableNodeTypes ''ns.specific'' ts = Returns ids
            \<and> mset ids = {#Id_t t1, Id_t t2, Id_t t3#}"
proof -
  have "set_mset (mset ts) = {Some t1, Some t2, Some t3}"
    unfolding assms(4) by auto
  then have set_ts: "set ts = {Some t1, Some t2, Some t3}" by simp
  have a1: "addable_any (AddableTo t1) ''ns.specific'' = Returns True"
    by (simp add: assms(1) addable_test_def)
  have a2: "addable_any (AddableTo t2) ''ns.specific'' = Returns True"
    by (simp add: assms(2) addable_test_def)
  have a3: "addable_any (AddableTo t3) ''ns.specific'' = Returns True"
    by (simp add: assms(3) addable_test_def)
  have "\<forall>t \<in> set ts. \<exists>x. t = Some x \<and> addable_any (AddableTo x) ''ns.specific'' = Returns True"
    unfolding set_ts using a1 a2 a3 by blast
  then have r: "findAddableNodeTypes ''ns.specific'' ts = Returns (map (\<lambda>t. Id_t (the t)) ts)"
    by (simp add: findAddableNodeTypes_def findAddableNodeTypes_loop_all)
  have "mset (map (\<lambda>t. Id_t (the t)) ts) = image_mset (\<lambda>t. Id_t (the t)) (mset ts)" by simp
  also have "\<dots> = {#Id_t t1, Id_t t2, Id_t t3#}" by (simp add: assms(4))
  finally have m: "mset (map (\<lambda>t. Id_t (the t)) ts) = {#Id_t t1, Id_t t2, Id_t t3#}" .
  with r show ?thesis by simp
qed

lemma iteration_order_three:
  assumes "iteration_order (Some m) order" and "dom m = {k1, k2, k3}"
    and "k1 \<noteq> k2" "k1 \<noteq> k3" "k2 \<noteq> k3"
  shows "mset order = {#k1, k2, k3#}"
proof -
  from assms(1,2) have d: "distinct order" and s: "set order = {k1, k2, k3}"
    by (simp_all add: iteration_order_def)
  from d have "mset order = mset_set (set order)" by (simp add: mset_set_set)
  also have "\<dots> = {#k1, k2, k3#}" using assms(3-5) unfolding s by simp
  finally show ?thesis .
qed


text \<open>
  C5.  Let the registry hold three node types, whose \<open>AddableTo\<close> lists are
  \<^verbatim>\<open>["."]\<close>, \<^verbatim>\<open>["ns."]\<close> and \<^verbatim>\<open>["ns.specific"]\<close>.  In whatever order the map yields
  them, \<^verbatim>\<open>GetAddableNodeTypes\<close> for the parent type \<^verbatim>\<open>ns.specific\<close> returns, with the
  \<^verbatim>\<open>nil\<close> error, the ids of exactly these three, each once.  The prefix rule needs
  the trailing dot: the entry \<^verbatim>\<open>ns\<close> does not match the parent type
  \<^verbatim>\<open>nsx.specific\<close>, and for a registry whose one node type has that entry alone
  \<^verbatim>\<open>GetAddableNodeTypes\<close> returns no id for that parent type.
\<close>

theorem GetAddableNodeTypes_root_prefix_exact:
  assumes reg: "NodeTypes c = Some m" "dom m = {k1, k2, k3}" "k1 \<noteq> k2" "k1 \<noteq> k3" "k2 \<noteq> k3"
    and ord: "iteration_order (NodeTypes c) order"
    and ptr: "m k1 = Some p1" "m k2 = Some p2" "m k3 = Some p3"
    and obj: "node_types mem p1 = Some t1" "node_types mem p2 = Some t2" "node_types mem p3 = Some t3"
    and add: "AddableTo t1 = [''.'']" "AddableTo t2 = [''ns.'']" "AddableTo t3 = [''ns.specific'']"
    and bare: "NodeTypes c' = Some [k4 \<mapsto> p4]" "node_types mem' p4 = Some t4" "AddableTo t4 = [''ns'']"
  shows "(\<exists>ids. GetAddableNodeTypes (mem, c) order site ''ns.specific'' = Returns (ids, None)
            \<and> mset ids = {#Id_t t1, Id_t t2, Id_t t3#})
         \<and> addable_test ''ns'' ''nsx.specific'' = Returns False
         \<and> iteration_order (NodeTypes c') [k4]
         \<and> GetAddableNodeTypes (mem', c') [k4] site ''nsx.specific'' = Returns ([], None)"
proof -
  let ?f = "\<lambda>k. case map_get (NodeTypes c) k of None \<Rightarrow> None | Some p \<Rightarrow> node_types mem p"
  from ord reg(1) have "iteration_order (Some m) order" by simp
  from iteration_order_three[OF this reg(2-5)] have mo: "mset order = {#k1, k2, k3#}" .
  have "mset (map ?f order) = image_mset ?f (mset order)" by simp
  also have "\<dots> = {#Some t1, Some t2, Some t3#}"
    unfolding mo using reg(1) ptr obj by (simp add: map_get_def)
  finally have "mset (map ?f order) = {#Some t1, Some t2, Some t3#}" .
  from findAddableNodeTypes_three[OF add this] obtain ids where
    "findAddableNodeTypes ''ns.specific'' (map ?f order) = Returns ids"
    "mset ids = {#Id_t t1, Id_t t2, Id_t t3#}" by blast
  then have 1: "\<exists>ids. GetAddableNodeTypes (mem, c) order site ''ns.specific'' = Returns (ids, None)
            \<and> mset ids = {#Id_t t1, Id_t t2, Id_t t3#}" by simp
  have 2: "addable_test ''ns'' ''nsx.specific'' = Returns False" by (simp add: addable_test_def)
  have 3: "iteration_order (NodeTypes c') [k4]" using bare(1) by (simp add: iteration_order_def)
  have 4: "GetAddableNodeTypes (mem', c') [k4] site ''nsx.specific'' = Returns ([], None)"
    using bare by (simp add: findAddableNodeTypes_def map_get_def 2)
  from 1 2 3 4 show ?thesis by blast
qed


theorem GetAddableNodeTypes_root_prefix_exact_witness:
  "iteration_order (NodeTypes (snd three_registry)) [''ns.Detail'', ''core.Document'', ''ns.Child'']
   \<and> (\<exists>ids. GetAddableNodeTypes three_registry [''ns.Detail'', ''core.Document'', ''ns.Child'']
               ''example'' ''ns.specific'' = Returns (ids, None)
          \<and> mset ids = {#''core.Document'', ''ns.Child'', ''ns.Detail''#})
   \<and> GetAddableNodeTypes bare_registry [''ns.Bare''] ''example'' ''nsx.specific'' = Returns ([], None)"
proof -
  have o: "iteration_order (NodeTypes (snd three_registry)) [''ns.Detail'', ''core.Document'', ''ns.Child'']"
    by (auto simp: three_registry_def iteration_order_def)
  show ?thesis
    using o GetAddableNodeTypes_root_prefix_exact [of "snd three_registry" "[''core.Document'' \<mapsto> 1, ''ns.Child'' \<mapsto> 2, ''ns.Detail'' \<mapsto> 3]"
          "''core.Document''" "''ns.Child''" "''ns.Detail''"
          "[''ns.Detail'', ''core.Document'', ''ns.Child'']" 1 2 3 "fst three_registry"
          root_type ns_type exact_type "snd bare_registry" "''ns.Bare''" 4 "fst bare_registry" bare_type
          "''example''"]
    by (simp add: three_registry_def bare_registry_def root_type_def ns_type_def exact_type_def
        bare_type_def insert_commute)
qed

subsection \<open>Site configuration\<close>

lemma split_at_sep:
  assumes "sep \<in> set n"
  shows "takeWhile (\<lambda>c. c \<noteq> sep) n @ [sep] @ tl (dropWhile (\<lambda>c. c \<noteq> sep) n) = n"
proof -
  let ?d = "dropWhile (\<lambda>c. c \<noteq> sep) n"
  have ne: "?d \<noteq> []" using assms by (simp add: dropWhile_eq_Nil_conv)
  then have "hd ?d = sep" using hd_dropWhile[of "\<lambda>c. c \<noteq> sep" n] by simp
  with ne have "?d = sep # tl ?d" by (metis list.collapse)
  then have "takeWhile (\<lambda>c. c \<noteq> sep) n @ [sep] @ tl ?d = takeWhile (\<lambda>c. c \<noteq> sep) n @ ?d"
    by simp
  then show ?thesis by simp
qed

lemma Split_not_Nil [simp]: "Split s sep \<noteq> []"
  by (induction s) (auto split: list.splits)

lemma Split_no_sep: "sep \<notin> set p \<Longrightarrow> Split p sep = [p]"
  by (induction p) auto

lemma Split_append: "sep \<notin> set p \<Longrightarrow> Split (p @ sep # s) sep = p # Split s sep"
  by (induction p) auto

lemma Split_join_sep:
  "ps \<noteq> [] \<Longrightarrow> \<forall>p \<in> set ps. sep \<notin> set p \<Longrightarrow> Split (join_sep sep ps) sep = ps"
proof (induction sep ps rule: join_sep.induct)
  case (1 sep)
  then show ?case by simp
next
  case (2 sep p)
  then show ?case by (simp add: Split_no_sep)
next
  case (3 sep p q ps)
  then show ?case by (simp add: Split_append)
qed

lemma join_sep_Split: "join_sep sep (Split s sep) = s"
proof (induction s)
  case Nil
  then show ?case by simp
next
  case (Cons c cs)
  obtain w ws where w: "Split cs sep = w # ws" by (cases "Split cs sep") simp_all
  show ?case
  proof (cases "c = sep")
    case True
    with Cons w show ?thesis by simp
  next
    case False
    with Cons w show ?thesis by (cases ws) auto
  qed
qed

lemma Split_parts: "p \<in> set (Split s sep) \<Longrightarrow> sep \<notin> set p"
proof (induction s arbitrary: p)
  case Nil
  then show ?case by simp
next
  case (Cons c cs)
  obtain w ws where w: "Split cs sep = w # ws" by (cases "Split cs sep") simp_all
  from Cons.IH[of w] w have 1: "sep \<notin> set w" by simp
  from Cons.IH w have 2: "\<forall>q \<in> set ws. sep \<notin> set q" by simp
  from Cons.prems w 1 2 show ?case by (auto split: if_splits)
qed

lemma child_simps:
  "child (JObject kvs) k = (case map_of kvs k of None \<Rightarrow> JNull | Some v \<Rightarrow> v)"
  "child JNull k = JNull" "child (JBool b) k = JNull" "child (JNumber x) k = JNull"
  "child (JString s) k = JNull" "child (JArray js) k = JNull"
  by (simp_all add: child_def)

lemma foldl_child_JNull: "foldl child JNull ps = JNull"
  by (induction ps) (simp_all add: child_simps)

lemma getConfig_walk_child:
  "getConfig_walk target ps = foldl child target (takeWhile (\<lambda>p. p \<noteq> []) ps)"
proof (induction ps arbitrary: target)
  case Nil
  then show ?case by simp
next
  case (Cons p ps)
  show ?case
  proof (cases "p = []")
    case True
    then show ?thesis by simp
  next
    case False
    then show ?thesis using Cons.IH
      by (cases target) (simp_all add: child_simps foldl_child_JNull split: option.splits)
  qed
qed

lemma SplitN2_at_first:
  "sep \<notin> set module \<Longrightarrow> SplitN2 (module @ sep # rest) sep = [module, rest]"
  by (induction module) (auto simp: SplitN2_def)


text \<open>
  C9 (as amended).  \<^verbatim>\<open>GetSiteConfig\<close> returns only for a name with a dot.  For a
  name without one, \<^verbatim>\<open>parts[1]\<close> is out of range and the call panics: it returns
  neither a result nor an error.  Every name with a dot is a module name without
  a dot, a dot, and one or more parts joined by dots.  For such a name the call
  does return: \<^verbatim>\<open>nil\<close> bytes and no error when the file of the module does not
  exist; an error when the file cannot be read or decoded, or the answer cannot be
  encoded; and otherwise the encoding of the object that wraps, under \<^verbatim>\<open>Value\<close>,
  the value reached from the decoded document along the parts up to the first
  empty one (\<^verbatim>\<open>nil\<close> where a part names no member).
\<close>

theorem GetSiteConfig_by_dotted_name:
  "(CHR ''.'' \<notin> set n \<longrightarrow> GetSiteConfig ext fs site n = Panics IndexOutOfRange)
   \<and> (CHR ''.'' \<in> set n \<longrightarrow>
        (\<exists>module ps. n = module @ ''.'' @ join_sep (CHR ''.'') ps \<and> CHR ''.'' \<notin> set module
            \<and> ps \<noteq> [] \<and> (\<forall>p \<in> set ps. CHR ''.'' \<notin> set p)))
   \<and> (CHR ''.'' \<notin> set module \<and> ps \<noteq> [] \<and> (\<forall>p \<in> set ps. CHR ''.'' \<notin> set p) \<longrightarrow>
        GetSiteConfig ext fs site (module @ ''.'' @ join_sep (CHR ''.'') ps) =
          Returns
            (case ReadFile fs (Join ext [GetSiteConfigPath ext site, module @ ''.json'']) of
               (content, Some err) \<Rightarrow>
                 if IsNotExist (Some err) then Inr None
                 else Inl (Errorf (''Could not read configuration: '' @ Error_text err))
             | (content, None) \<Rightarrow>
                 (case Unmarshal ext (case content of None \<Rightarrow> [] | Some b \<Rightarrow> b) of
                    Inl err \<Rightarrow> Inl (Errorf (''Could not parse configuration: '' @ Error_text err))
                  | Inr target \<Rightarrow>
                      (case Marshal ext
                              (JObject [(''Value'',
                                 foldl child target (takeWhile (\<lambda>p. p \<noteq> []) ps))]) of
                         Inl err \<Rightarrow>
                           Inl (Errorf (''Could not encode configuration: '' @ Error_text err))
                       | Inr ret \<Rightarrow> Inr (Some ret)))))"
proof (intro conjI impI)
  assume "CHR ''.'' \<notin> set n"
  then show "GetSiteConfig ext fs site n = Panics IndexOutOfRange"
    by (simp add: GetSiteConfig_def SplitN2_def)
next
  assume a: "CHR ''.'' \<in> set n"
  let ?m = "takeWhile (\<lambda>c. c \<noteq> CHR ''.'') n"
  let ?r = "tl (dropWhile (\<lambda>c. c \<noteq> CHR ''.'') n)"
  have 1: "n = ?m @ ''.'' @ join_sep (CHR ''.'') (Split ?r (CHR ''.''))"
    using split_at_sep[OF a] by (simp add: join_sep_Split)
  have 2: "CHR ''.'' \<notin> set ?m" by (auto dest: set_takeWhileD)
  have 3: "Split ?r (CHR ''.'') \<noteq> []" by simp
  have 4: "\<forall>p \<in> set (Split ?r (CHR ''.'')). CHR ''.'' \<notin> set p" by (blast dest: Split_parts)
  from 1 2 3 4 show "\<exists>module ps. n = module @ ''.'' @ join_sep (CHR ''.'') ps
      \<and> CHR ''.'' \<notin> set module \<and> ps \<noteq> [] \<and> (\<forall>p \<in> set ps. CHR ''.'' \<notin> set p)"
    by blast
next
  assume a: "CHR ''.'' \<notin> set module \<and> ps \<noteq> [] \<and> (\<forall>p \<in> set ps. CHR ''.'' \<notin> set p)"
  then have s: "SplitN2 (module @ ''.'' @ join_sep (CHR ''.'') ps) (CHR ''.'')
      = [module, join_sep (CHR ''.'') ps]"
    using SplitN2_at_first[of "CHR ''.''" module "join_sep (CHR ''.'') ps"] by simp
  from a have w: "getConfig_walk target (Split (join_sep (CHR ''.'') ps) (CHR ''.''))
      = foldl child target (takeWhile (\<lambda>p. p \<noteq> []) ps)" for target
    by (simp add: Split_join_sep getConfig_walk_child)
  have "GetSiteConfig ext fs site (module @ ''.'' @ join_sep (CHR ''.'') ps)
      = Returns (getConfig ext fs (Join ext [GetSiteConfigPath ext site, module @ ''.json''])
                   (join_sep (CHR ''.'') ps))"
    unfolding GetSiteConfig_def s by (simp add: Let_def)
  also have "getConfig ext fs (Join ext [GetSiteConfigPath ext site, module @ ''.json''])
                   (join_sep (CHR ''.'') ps)
     = (case ReadFile fs (Join ext [GetSiteConfigPath ext site, module @ ''.json'']) of
               (content, Some err) \<Rightarrow>
                 if IsNotExist (Some err) then Inr None
                 else Inl (Errorf (''Could not read configuration: '' @ Error_text err))
             | (content, None) \<Rightarrow>
                 (case Unmarshal ext (case content of None \<Rightarrow> [] | Some b \<Rightarrow> b) of
                    Inl err \<Rightarrow> Inl (Errorf (''Could not parse configuration: '' @ Error_text err))
                  | Inr target \<Rightarrow>
                      (case Marshal ext
                              (JObject [(''Value'',
                                 foldl child target (takeWhile (\<lambda>p. p \<noteq> []) ps))]) of
                         Inl err \<Rightarrow>
                           Inl (Errorf (''Could not encode configuration: '' @ Error_text err))
                       | Inr ret \<Rightarrow> Inr (Some ret))))"
    unfolding getConfig_def w ..
  finally show "GetSiteConfig ext fs site (module @ ''.'' @ join_sep (CHR ''.'') ps) =
          Returns
            (case ReadFile fs (Join ext [GetSiteConfigPath ext site, module @ ''.json'']) of
               (content, Some err) \<Rightarrow>
                 if IsNotExist (Some err) then Inr None
                 else Inl (Errorf (''Could not read configuration: '' @ Error_text err))
             | (content, None) \<Rightarrow>
                 (case Unmarshal ext (case content of None \<Rightarrow> [] | Some b \<Rightarrow> b) of
                    Inl err \<Rightarrow> Inl (Errorf (''Could not parse configuration: '' @ Error_text err))
                  | Inr target \<Rightarrow>
                      (case Marshal ext
                              (JObject [(''Value'',
                                 foldl child target (takeWhile (\<lambda>p. p \<noteq> []) ps))]) of
                         Inl err \<Rightarrow>
                           Inl (Errorf (''Could not encode configuration: '' @ Error_text err))
                       | Inr ret \<Rightarrow> Inr (Some ret))))" .
qed

theorem GetSiteConfig_by_dotted_name_witness:
  "GetSiteConfig example_extern config_fs ''example'' ''core'' = Panics IndexOutOfRange
   \<and> GetSiteConfig example_extern config_fs ''example'' ''core.Site.Title''
       = Returns (Inr (Some ''{\"Value\":\"Home\"}''))
   \<and> GetSiteConfig example_extern config_fs ''example'' ''core.Site.Name''
       = Returns (Inr (Some ''{\"Value\":null}''))"
  using GetSiteConfig_by_dotted_name
          [where n = "''core''" and ext = example_extern and fs = config_fs and site = "''example''"
             and module = "''core''" and ps = "[''Site'', ''Title'']"]
        GetSiteConfig_by_dotted_name
          [where n = "''core''" and ext = example_extern and fs = config_fs and site = "''example''"
             and module = "''core''" and ps = "[''Site'', ''Name'']"]
  by (simp add: example_extern_def config_fs_def empty_fs_def example_Join_def
      example_Unmarshal_def child_simps)

text \<open>
  C9 as stated says that every name with a dot gets the wrapped value.  The site
  \<^verbatim>\<open>example\<close> has no file for the module \<^verbatim>\<open>other\<close>: for the name \<^verbatim>\<open>other.Title\<close> the
  call returns \<^verbatim>\<open>nil\<close> bytes, no wrapped value, and no error.
\<close>

theorem GetSiteConfig_of_missing_module:
  "CHR ''.'' \<in> set ''other.Title''
   \<and> GetSiteConfig example_extern config_fs ''example'' ''other.Title'' = Returns (Inr None)"
  by (simp add: GetSiteConfig_def SplitN2_def getConfig_def example_extern_def config_fs_def
      empty_fs_def example_Join_def)

subsection \<open>The node store\<close>

text \<open>
  Once \<^verbatim>\<open>ioutil.ReadDir\<close> has succeeded, the loop of \<^verbatim>\<open>getChildren\<close> returns no
  error at all: an error of \<^verbatim>\<open>getChildren\<close> is the error of \<^verbatim>\<open>ioutil.ReadDir\<close>.
\<close>

lemma getChildren_loop_no_error:
  "getChildren_loop ext fs root path None files nodes = Returns (ns, e) \<Longrightarrow> e = None"
proof (induction files arbitrary: nodes)
  case Nil
  then show ?case by simp
next
  case (Cons f files)
  obtain name isDir where f: "f = (name, isDir)" by (cases f)
  from Cons.prems show ?case unfolding f
    by (auto split: outcome.splits option.splits if_splits dest: Cons.IH)
qed

lemma getChildren_error_from_ReadDir:
  "getChildren ext fs root path = Returns (ns, Some e) \<Longrightarrow>
   snd (ReadDir fs (Join ext [root, path])) = Some e"
  by (auto simp: getChildren_def split: prod.splits if_splits dest: getChildren_loop_no_error)

text \<open>
  C3.  The claim says that \<^verbatim>\<open>GetChildren\<close> returns the error, and no list, when
  reading a child's \<^verbatim>\<open>node.json\<close> fails with an error other than not-found.  In
  the directory \<^verbatim>\<open>/a\<close> of \<open>unreadable_fs\<close> the read of \<^verbatim>\<open>/a/c/node.json\<close> fails with
  "permission denied", and \<^verbatim>\<open>getNode\<close> returns that error; \<^verbatim>\<open>GetChildren\<close> returns
  the node \<^verbatim>\<open>/a/b\<close> and a placeholder for \<^verbatim>\<open>/a/c\<close>, and the \<^verbatim>\<open>nil\<close> error.
\<close>

theorem GetChildren_drops_read_error:
  "snd (ReadFile unreadable_fs ''/srv/example/nodes/a/c/node.json'')
     = Some (OSError EACCES ''open /srv/example/nodes/a/c/node.json: permission denied'')
   \<and> getNode example_extern unreadable_fs ''/srv/example/nodes'' ''/a/c''
     = Returns (None, Some (OSError EACCES ''open /srv/example/nodes/a/c/node.json: permission denied''))
   \<and> GetChildren example_extern unreadable_fs ''example'' ''/a''
     = Returns ([''{\"Path\":\"/a/b\",\"Type\":\"core.Document\"}'',
                 ''{\"Path\":\"/a/c\",\"Type\":\"core.Path\"}''], None)"
  by (simp add: GetChildren_def getChildren_def getNode_def Replace_def example_extern_def
      unreadable_fs_def empty_fs_def example_Join_def example_Quote_def pathJSON_def
      placeholder_def)

text \<open>
  What \<^verbatim>\<open>GetNode\<close> returns after \<^verbatim>\<open>WriteNodeData\<close> has written \<^verbatim>\<open>node.json\<close>: the
  written bytes, if any, their first \<^verbatim>\<open>{\<close> replaced by \<^verbatim>\<open>{"Path":<quoted path>,\<close>.
\<close>

lemma GetNode_after_WriteNodeData:
  assumes "WriteNodeData ext fs Site Path ''node.json'' Content = Returns (fs', None)"
  shows "GetNode ext fs' Site Path
         = Returns (if Content = [] then None
                    else Some (Replace1 Content (CHR ''{'') (pathJSON ext Path)), None)"
  using assms
  by (auto simp: WriteNodeData_def GetNode_def getNode_def WriteFile_def Replace_def Let_def
      split: if_splits option.splits prod.splits)

text \<open>
  C8.  The claim says that for every JSON object written as \<^verbatim>\<open>node.json\<close> of
  \<^verbatim>\<open>/a/b\<close>, \<^verbatim>\<open>GetNode\<close> returns a document with \<open>Path\<close> first and the written fields
  after it.  For the empty object \<^verbatim>\<open>{}\<close> it returns \<^verbatim>\<open>{"Path":"/a/b",}\<close>: the comma
  that the replacement always writes is followed by the closing brace, which is
  no JSON document.
\<close>

theorem GetNode_of_empty_object:
  "\<exists>fs'. WriteNodeData example_extern empty_fs ''example'' ''/a/b'' ''node.json'' ''{}''
            = Returns (fs', None)
       \<and> GetNode example_extern fs' ''example'' ''/a/b''
            = Returns (Some ''{\"Path\":\"/a/b\",}'', None)"
proof -
  obtain fs' where w:
    "WriteNodeData example_extern empty_fs ''example'' ''/a/b'' ''node.json'' ''{}''
       = Returns (fs', None)"
    by (simp add: WriteNodeData_def WriteFile_def empty_fs_def)
  have "GetNode example_extern fs' ''example'' ''/a/b''
      = Returns (Some (Replace1 ''{}'' (CHR ''{'') (pathJSON example_extern ''/a/b'')), None)"
    using GetNode_after_WriteNodeData[OF w] by simp
  then have "GetNode example_extern fs' ''example'' ''/a/b''
      = Returns (Some ''{\"Path\":\"/a/b\",}'', None)"
    by (simp add: pathJSON_def example_extern_def example_Quote_def)
  with w show ?thesis by blast
qed

subsection \<open>The signal bus\<close>

lemma subscriber_WaitSignal_received [simp]:
  "subscriber (fst (WaitSignal_received m sid sg)) = subscriber m"
  by (simp add: WaitSignal_received_def)

lemma EmitSignal_loop_finishes:
  assumes "map_get (subscriber m) sid = Some c" and "env i sid (name, args) = Finishes err r"
  shows "EmitSignal_loop env name args i (sid # ids) m ret =
     (let sg = \<lparr>Name = name, Args = args, RetChan = nextChan m\<rparr>;
          m2 = fst (WaitSignal_received (m\<lparr>nextChan := Suc (nextChan m)\<rparr>) sid sg);
          er = \<lparr>Ret = r, Error = err\<rparr>
      in if err \<noteq> [] then
           ([Delivered sid sg, Finished sid er], m2,
            Done ret (Some (Errorf (''Received error as signal response: '' @ err))))
         else (case EmitSignal_loop env name args (Suc i) ids m2 (ret[i := r]) of
                 (evs, m3, res) \<Rightarrow> (Delivered sid sg # Finished sid er # evs, m3, res)))"
  using assms
  by (simp add: FinishSignal_send_def WaitSignal_received_def map_get_def Let_def)

lemma EmitSignal_loop_sequential:
  "sequential (fst (EmitSignal_loop env name args i ids m ret))"
proof (induction ids arbitrary: i m ret)
  case Nil
  then show ?case by simp
next
  case (Cons sid ids)
  show ?case
  proof (cases "map_get (subscriber m) sid")
    case None
    then show ?thesis by (simp add: Let_def)
  next
    case (Some c)
    show ?thesis
    proof (cases "env i sid (name, args)")
      case NeverWaits
      with Some show ?thesis by (simp add: Let_def)
    next
      case NeverFinishes
      with Some show ?thesis by (simp add: Let_def)
    next
      case (Finishes err r)
      show ?thesis
        using Cons.IH[of "Suc i" _ "ret[i := r]"]
        by (simp add: EmitSignal_loop_finishes[where env = env and i = i, OF Some Finishes] Let_def case_prod_beta del: EmitSignal_loop.simps)
    qed
  qed
qed

lemma EmitSignal_loop_prefix:
  "prefix (delivered_to (fst (EmitSignal_loop env name args i ids m ret))) ids"
proof (induction ids arbitrary: i m ret)
  case Nil
  then show ?case by simp
next
  case (Cons sid ids)
  show ?case
  proof (cases "map_get (subscriber m) sid")
    case None
    then show ?thesis by (simp add: Let_def)
  next
    case (Some c)
    show ?thesis
    proof (cases "env i sid (name, args)")
      case NeverWaits
      with Some show ?thesis by (simp add: Let_def)
    next
      case NeverFinishes
      with Some show ?thesis by (simp add: Let_def)
    next
      case (Finishes err r)
      show ?thesis
        using Cons.IH[of "Suc i" _ "ret[i := r]"]
        by (simp add: EmitSignal_loop_finishes[where env = env and i = i, OF Some Finishes] Let_def case_prod_beta del: EmitSignal_loop.simps)
    qed
  qed
qed

lemma EmitSignal_loop_short_circuit:
  assumes "k < length ids"
    and "\<forall>s \<in> set ids. map_get (subscriber m) s \<noteq> None"
    and "\<forall>j<k. \<exists>r. env (i + j) (ids ! j) (name, args) = Finishes [] r"
    and "env (i + k) (ids ! k) (name, args) = Finishes err r" and "err \<noteq> []"
  shows "delivered_to (fst (EmitSignal_loop env name args i ids m ret)) = take (Suc k) ids
       \<and> (\<exists>ret'. snd (snd (EmitSignal_loop env name args i ids m ret))
             = Done ret' (Some (Errorf (''Received error as signal response: '' @ err))))"
  using assms
proof (induction ids arbitrary: i m ret k)
  case Nil
  then show ?case by simp
next
  case (Cons sid ids)
  from Cons.prems(2) obtain c where c: "map_get (subscriber m) sid = Some c" by auto
  show ?case
  proof (cases k)
    case 0
    with Cons.prems(4) have e: "env i sid (name, args) = Finishes err r" by simp
    show ?thesis using Cons.prems(5) 0
      by (simp add: EmitSignal_loop_finishes[where env = env and i = i, OF c e] Let_def del: EmitSignal_loop.simps)
  next
    case (Suc k')
    from Cons.prems(3) Suc obtain r0 where e: "env i sid (name, args) = Finishes [] r0"
      by fastforce
    let ?m2 = "fst (WaitSignal_received (m\<lparr>nextChan := Suc (nextChan m)\<rparr>) sid
                  \<lparr>Name = name, Args = args, RetChan = nextChan m\<rparr>)"
    have p1: "k' < length ids" using Cons.prems(1) Suc by simp
    have p2: "\<forall>s \<in> set ids. map_get (subscriber ?m2) s \<noteq> None"
      using Cons.prems(2) by simp
    have p3: "\<forall>j<k'. \<exists>r. env (Suc i + j) (ids ! j) (name, args) = Finishes [] r"
    proof (intro allI impI)
      fix j assume "j < k'"
      then have "Suc j < k" using Suc by simp
      with Cons.prems(3) have "\<exists>r. env (i + Suc j) ((sid # ids) ! Suc j) (name, args) = Finishes [] r"
        by blast
      then show "\<exists>r. env (Suc i + j) (ids ! j) (name, args) = Finishes [] r" by simp
    qed
    have p4: "env (Suc i + k') (ids ! k') (name, args) = Finishes err r"
      using Cons.prems(4) Suc by simp
    note IH = Cons.IH[OF p1 p2 p3 p4 Cons.prems(5), of "ret[i := r0]"]
    show ?thesis using IH Suc
      by (simp add: EmitSignal_loop_finishes[where env = env and i = i, OF c e] Let_def case_prod_beta del: EmitSignal_loop.simps)
  qed
qed

lemma EmitSignal_loop_all_finish:
  assumes "\<forall>s \<in> set ids. map_get (subscriber m) s \<noteq> None"
    and "\<forall>j<length ids. \<exists>r. env (i + j) (ids ! j) (name, args) = Finishes [] r"
  shows "delivered_to (fst (EmitSignal_loop env name args i ids m ret)) = ids
       \<and> (\<exists>ret'. snd (snd (EmitSignal_loop env name args i ids m ret)) = Done ret' None)"
  using assms
proof (induction ids arbitrary: i m ret)
  case Nil
  then show ?case by simp
next
  case (Cons sid ids)
  from Cons.prems(1) obtain c where c: "map_get (subscriber m) sid = Some c" by auto
  from Cons.prems(2) obtain r0 where e: "env i sid (name, args) = Finishes [] r0"
    by fastforce
  let ?m2 = "fst (WaitSignal_received (m\<lparr>nextChan := Suc (nextChan m)\<rparr>) sid
                \<lparr>Name = name, Args = args, RetChan = nextChan m\<rparr>)"
  have p2: "\<forall>s \<in> set ids. map_get (subscriber ?m2) s \<noteq> None"
    using Cons.prems(1) by simp
  have p3: "\<forall>j<length ids. \<exists>r. env (Suc i + j) (ids ! j) (name, args) = Finishes [] r"
  proof (intro allI impI)
    fix j assume "j < length ids"
    then have "Suc j < length (sid # ids)" by simp
    with Cons.prems(2) have "\<exists>r. env (i + Suc j) ((sid # ids) ! Suc j) (name, args) = Finishes [] r"
      by blast
    then show "\<exists>r. env (Suc i + j) (ids ! j) (name, args) = Finishes [] r" by simp
  qed
  note IH = Cons.IH[OF p2 p3, of "ret[i := r0]"]
  show ?case using IH
    by (simp add: EmitSignal_loop_finishes[where env = env and i = i, OF c e] Let_def case_prod_beta del: EmitSignal_loop.simps)
qed

lemma bus_inv_empty: "bus_inv empty_bus"
  by (simp add: bus_inv_def empty_bus_def subscribers_of_def map_get_def)

lemma ConnectSignal_effect:
  assumes "ConnectSignal m sid sg = Returns (m1, e1)"
  shows "e1 = None" and "subscribers_of m1 sg = subscribers_of m sg @ [sid]"
    and "sg' \<noteq> sg \<Longrightarrow> subscribers_of m1 sg' = subscribers_of m sg'"
    and "map_get (subscriber m1) sid \<noteq> None"
    and "subscriptions m1 \<noteq> None" and "subscriber m1 \<noteq> None"
  using assms
  by (auto simp: ConnectSignal_def subscribers_of_def map_get_def Let_def
      split: option.splits if_splits)

lemma ConnectSignal_keeps_channels:
  assumes "ConnectSignal m sid sg = Returns (m1, e1)"
    and "subscriptions m = None \<longrightarrow> subscriber m = None"
  shows "map_get (subscriber m) s \<noteq> None \<Longrightarrow> map_get (subscriber m1) s = map_get (subscriber m) s"
    and "map_get (subscriber m) sid \<noteq> None \<Longrightarrow> subscriber m1 = subscriber m \<and> nextChan m1 = nextChan m"
  using assms
  by (auto simp: ConnectSignal_def subscribers_of_def map_get_def Let_def
      split: option.splits if_splits)

lemma ConnectSignal_returns:
  assumes "subscriptions m = None \<longleftrightarrow> subscriber m = None"
  shows "\<exists>m1. ConnectSignal m sid sg = Returns (m1, None)"
  using assms
  by (auto simp: ConnectSignal_def subscribers_of_def map_get_def Let_def
      split: option.splits if_splits)

lemma bus_inv_ConnectSignal:
  assumes inv: "bus_inv m" and c: "ConnectSignal m sid sg = Returns (m1, e1)"
  shows "bus_inv m1"
proof -
  from inv have n: "subscriptions m = None \<longrightarrow> subscriber m = None" by (simp add: bus_inv_def)
  have both: "subscriptions m1 = None \<longleftrightarrow> subscriber m1 = None"
    using ConnectSignal_effect(5,6)[OF c] by blast
  note a = ConnectSignal_effect[OF c] and k = ConnectSignal_keeps_channels[OF c n]
  have "map_get (subscriber m1) s \<noteq> None" if s: "s \<in> set (subscribers_of m1 sg')" for s sg'
  proof (cases "s = sid")
    case True
    then show ?thesis using a(4) by simp
  next
    case False
    have "s \<in> set (subscribers_of m sg')"
    proof (cases "sg' = sg")
      case True
      with s a(2) False show ?thesis by simp
    next
      case False
      with s a(3) show ?thesis by simp
    qed
    with inv have "map_get (subscriber m) s \<noteq> None" by (simp add: bus_inv_def)
    then show ?thesis using k(1) by simp
  qed
  with both show ?thesis unfolding bus_inv_def by blast
qed


lemma bus_inv_connected: "bus_inv m \<Longrightarrow> bus_inv (connected m sid sg)"
proof -
  assume inv: "bus_inv m"
  then have "subscriptions m = None \<longleftrightarrow> subscriber m = None" by (simp add: bus_inv_def)
  from ConnectSignal_returns[OF this] obtain m1 where c: "ConnectSignal m sid sg = Returns (m1, None)"
    by blast
  from bus_inv_ConnectSignal[OF inv c] c show ?thesis by (simp add: connected_def)
qed

lemma EmitSignal_loop_error_last:
  assumes "Finished sid er \<in> set (fst (EmitSignal_loop env name args i ids m ret))"
    and "Error er \<noteq> []"
  shows "last (fst (EmitSignal_loop env name args i ids m ret)) = Finished sid er
       \<and> (\<exists>ret'. snd (snd (EmitSignal_loop env name args i ids m ret))
             = Done ret' (Some (Errorf (''Received error as signal response: '' @ Error er))))"
  using assms
proof (induction ids arbitrary: i m ret)
  case Nil
  then show ?case by simp
next
  case (Cons s ids)
  show ?case
  proof (cases "map_get (subscriber m) s")
    case None
    with Cons.prems show ?thesis by (simp add: Let_def)
  next
    case (Some c)
    show ?thesis
    proof (cases "env i s (name, args)")
      case NeverWaits
      with Some Cons.prems show ?thesis by (simp add: Let_def)
    next
      case NeverFinishes
      with Some Cons.prems show ?thesis by (simp add: Let_def)
    next
      case (Finishes err r)
      note step = EmitSignal_loop_finishes[where env = env and i = i, OF Some Finishes]
      show ?thesis
      proof (cases "err = []")
        case False
        with Cons.prems show ?thesis
          by (auto simp: step Let_def simp del: EmitSignal_loop.simps)
      next
        case True
        let ?m2 = "fst (WaitSignal_received (m\<lparr>nextChan := Suc (nextChan m)\<rparr>) s
                      \<lparr>Name = name, Args = args, RetChan = nextChan m\<rparr>)"
        let ?rest = "EmitSignal_loop env name args (Suc i) ids ?m2 (ret[i := r])"
        have tr: "fst (EmitSignal_loop env name args i (s # ids) m ret)
            = Delivered s \<lparr>Name = name, Args = args, RetChan = nextChan m\<rparr>
              # Finished s \<lparr>Ret = r, Error = err\<rparr> # fst ?rest"
          and rs: "snd (snd (EmitSignal_loop env name args i (s # ids) m ret)) = snd (snd ?rest)"
          using True by (simp_all add: step Let_def case_prod_beta del: EmitSignal_loop.simps)
        from Cons.prems tr True have mem: "Finished sid er \<in> set (fst ?rest)" by auto
        from Cons.IH[OF mem Cons.prems(2)] have
          l: "last (fst ?rest) = Finished sid er" and
          d: "\<exists>ret'. snd (snd ?rest) = Done ret' (Some (Errorf (''Received error as signal response: '' @ Error er)))"
          by blast+
        from mem have "fst ?rest \<noteq> []" by auto
        with l have "last (fst (EmitSignal_loop env name args i (s # ids) m ret)) = Finished sid er"
          unfolding tr by simp
        with d rs show ?thesis by simp
      qed
    qed
  qed
qed

text \<open>
  C1.  Whatever the subscribers do, one emission delivers the signal in the order
  of the subscription list (the subscribers that received it are an initial
  segment of the list), and each delivery but the last is followed at once by the
  finish of the same subscriber, so no subscriber receives the signal before the
  one before it has finished.  A finish that carries a non-empty error is the
  last event of the emission, and \<^verbatim>\<open>EmitSignal\<close> returns that error (under the
  prefix \<^verbatim>\<open>Received error as signal response:\<close>).  In particular, when the first
  \<open>k\<close> subscribers finish without error and the next one finishes with an error,
  exactly the first \<open>k + 1\<close> subscribers of the list have received the signal.
  The subscribers cooperate or not as the environment \<open>env\<close> says: each either
  never calls \<^verbatim>\<open>WaitSignal\<close>, or never calls \<^verbatim>\<open>FinishSignal\<close>, or calls both.
\<close>

theorem EmitSignal_in_order_until_error:
  "sequential (fst (EmitSignal env m name args))
   \<and> prefix (delivered_to (fst (EmitSignal env m name args))) (subscribers_of m name)
   \<and> (Finished sid er \<in> set (fst (EmitSignal env m name args)) \<and> Error er \<noteq> [] \<longrightarrow>
        last (fst (EmitSignal env m name args)) = Finished sid er
        \<and> (\<exists>ret'. snd (snd (EmitSignal env m name args))
              = Done ret' (Some (Errorf (''Received error as signal response: '' @ Error er)))))
   \<and> (bus_inv m \<and> k < length (subscribers_of m name)
        \<and> (\<forall>j<k. \<exists>r. env j (subscribers_of m name ! j) (name, args) = Finishes [] r)
        \<and> env k (subscribers_of m name ! k) (name, args) = Finishes err r \<and> err \<noteq> [] \<longrightarrow>
        delivered_to (fst (EmitSignal env m name args)) = take (Suc k) (subscribers_of m name)
        \<and> (\<exists>ret'. snd (snd (EmitSignal env m name args))
              = Done ret' (Some (Errorf (''Received error as signal response: '' @ err)))))"
proof (intro conjI impI)
  show "sequential (fst (EmitSignal env m name args))"
    unfolding EmitSignal_def by (rule EmitSignal_loop_sequential)
  show "prefix (delivered_to (fst (EmitSignal env m name args))) (subscribers_of m name)"
    unfolding EmitSignal_def by (rule EmitSignal_loop_prefix)
next
  assume a: "Finished sid er \<in> set (fst (EmitSignal env m name args)) \<and> Error er \<noteq> []"
  then have "last (fst (EmitSignal env m name args)) = Finished sid er
        \<and> (\<exists>ret'. snd (snd (EmitSignal env m name args))
              = Done ret' (Some (Errorf (''Received error as signal response: '' @ Error er))))"
    unfolding EmitSignal_def by (intro EmitSignal_loop_error_last) simp_all
  then show "last (fst (EmitSignal env m name args)) = Finished sid er"
    and "\<exists>ret'. snd (snd (EmitSignal env m name args))
              = Done ret' (Some (Errorf (''Received error as signal response: '' @ Error er)))"
    by simp_all
next
  assume a: "bus_inv m \<and> k < length (subscribers_of m name)
        \<and> (\<forall>j<k. \<exists>r. env j (subscribers_of m name ! j) (name, args) = Finishes [] r)
        \<and> env k (subscribers_of m name ! k) (name, args) = Finishes err r \<and> err \<noteq> []"
  then have ch: "\<forall>s \<in> set (subscribers_of m name). map_get (subscriber m) s \<noteq> None"
    by (simp add: bus_inv_def)
  from a have k: "k < length (subscribers_of m name)" by simp
  from a have ok: "\<forall>j<k. \<exists>r. env (0 + j) (subscribers_of m name ! j) (name, args) = Finishes [] r"
    by simp
  from a have e: "env (0 + k) (subscribers_of m name ! k) (name, args) = Finishes err r" by simp
  from a have ne: "err \<noteq> []" by simp
  note r = EmitSignal_loop_short_circuit[where env = env and i = 0 and m = m
      and ret = "replicate (length (subscribers_of m name)) None", OF k ch ok e ne]
  from r show "delivered_to (fst (EmitSignal env m name args)) = take (Suc k) (subscribers_of m name)"
    and "\<exists>ret'. snd (snd (EmitSignal env m name args))
              = Done ret' (Some (Errorf (''Received error as signal response: '' @ err)))"
    unfolding EmitSignal_def by simp_all
qed


lemma three_subs: "subscribers_of three_bus ''X'' = [''S1'', ''S2'', ''S3'']"
  by (simp add: three_bus_def connected_def ConnectSignal_def empty_bus_def subscribers_of_def map_get_def)

theorem EmitSignal_in_order_until_error_witness:
  "sequential (fst (EmitSignal failing_subscribers three_bus ''X'' None))
   \<and> subscribers_of three_bus ''X'' = [''S1'', ''S2'', ''S3'']
   \<and> delivered_to (fst (EmitSignal failing_subscribers three_bus ''X'' None)) = [''S1'', ''S2'']
   \<and> (\<exists>ret'. snd (snd (EmitSignal failing_subscribers three_bus ''X'' None))
              = Done ret' (Some (Errorf ''Received error as signal response: boom'')))"
proof -
  have inv: "bus_inv three_bus"
    by (simp add: three_bus_def bus_inv_connected bus_inv_empty)
  show ?thesis
    using EmitSignal_in_order_until_error [where env = failing_subscribers and m = three_bus and name = "''X''"
                and args = None and k = 1 and err = "''boom''" and r = None] inv
    by (simp add: three_subs failing_subscribers_def)
qed

text \<open>
  C6 (as amended).  \<^verbatim>\<open>ConnectSignal\<close> appends the subscriber id on every call:
  after one call the signal's list is the old list followed by the id, after two
  calls it is the old list followed by the id twice, and an emission whose
  subscribers all finish without error then delivers the signal to every
  subscriber of the old list and twice to that subscriber.  Only the making of the
  subscriber's channel is idempotent: the second call leaves the channels as the
  first left them.
\<close>

theorem ConnectSignal_appends_on_every_call:
  assumes inv: "bus_inv m"
    and c1: "ConnectSignal m sid sg = Returns (m1, e1)"
    and c2: "ConnectSignal m1 sid sg = Returns (m2, e2)"
  shows "subscribers_of m1 sg = subscribers_of m sg @ [sid]
       \<and> subscribers_of m2 sg = subscribers_of m sg @ [sid, sid]
       \<and> subscriber m2 = subscriber m1 \<and> nextChan m2 = nextChan m1
       \<and> delivered_to (fst (EmitSignal prompt_subscribers m2 sg args))
              = subscribers_of m sg @ [sid, sid]"
proof -
  have inv1: "bus_inv m1" by (rule bus_inv_ConnectSignal[OF inv c1])
  have inv2: "bus_inv m2" by (rule bus_inv_ConnectSignal[OF inv1 c2])
  note a = ConnectSignal_effect[OF c1] and b = ConnectSignal_effect[OF c2]
  have s1: "subscribers_of m1 sg = subscribers_of m sg @ [sid]" by (rule a(2))
  have s2: "subscribers_of m2 sg = subscribers_of m sg @ [sid, sid]"
    using b(2) s1 by simp
  have "subscriptions m1 = None \<longrightarrow> subscriber m1 = None" using a(5) by blast
  from ConnectSignal_keeps_channels(2)[OF c2 this] a(4)
  have ch: "subscriber m2 = subscriber m1 \<and> nextChan m2 = nextChan m1" by blast
  have "\<forall>s \<in> set (subscribers_of m2 sg). map_get (subscriber m2) s \<noteq> None"
    using inv2 by (simp add: bus_inv_def)
  then have "delivered_to (fst (EmitSignal_loop prompt_subscribers sg args 0 (subscribers_of m2 sg) m2
               (replicate (length (subscribers_of m2 sg)) None))) = subscribers_of m2 sg"
    by (intro conjunct1[OF EmitSignal_loop_all_finish]) (simp_all add: prompt_subscribers_def)
  then have em: "delivered_to (fst (EmitSignal prompt_subscribers m2 sg args))
              = subscribers_of m sg @ [sid, sid]"
    by (simp add: EmitSignal_def s2)
  from s1 s2 ch em show ?thesis by blast
qed


theorem ConnectSignal_appends_on_every_call_witness:
  "subscribers_of (connected empty_bus ''S1'' ''X'') ''X'' = [''S1'']
   \<and> subscribers_of (connected (connected empty_bus ''S1'' ''X'') ''S1'' ''X'') ''X'' = [''S1'', ''S1'']
   \<and> delivered_to (fst (EmitSignal prompt_subscribers
         (connected (connected empty_bus ''S1'' ''X'') ''S1'' ''X'') ''X'' None)) = [''S1'', ''S1'']"
  using ConnectSignal_appends_on_every_call [OF bus_inv_empty, of "''S1''" "''X''" "connected empty_bus ''S1'' ''X''" None
              "connected (connected empty_bus ''S1'' ''X'') ''S1'' ''X''" None None]
  by (simp add: connected_def ConnectSignal_def empty_bus_def subscribers_of_def map_get_def)


text \<open>
  C6 as stated says that the second call leaves the state of the first.  From the
  start, the list of signal \<^verbatim>\<open>X\<close> holds \<^verbatim>\<open>S1\<close> once after one call and twice after
  two, and the emission delivers twice.
\<close>

theorem ConnectSignal_twice_is_not_once:
  "subscribers_of (connected (connected empty_bus ''S1'' ''X'') ''S1'' ''X'') ''X''
     \<noteq> subscribers_of (connected empty_bus ''S1'' ''X'') ''X''
   \<and> delivered_to (fst (EmitSignal prompt_subscribers
         (connected (connected empty_bus ''S1'' ''X'') ''S1'' ''X'') ''X'' None)) = [''S1'', ''S1'']"
  by (simp add: connected_def ConnectSignal_def empty_bus_def subscribers_of_def map_get_def
      EmitSignal_def prompt_subscribers_def WaitSignal_received_def FinishSignal_send_def)

subsection \<open>The registry of node types\<close>

lemma set_field_simps [simp]:
  "field_configs (set_field mem p i r) = field_configs mem"
  "q \<noteq> p \<Longrightarrow> node_types (set_field mem p i r) q = node_types mem q"
  "node_types mem p = Some nt \<Longrightarrow>
     node_types (set_field mem p i r) p = Some (nt\<lparr>Fields := (Fields nt)[i := r]\<rparr>)"
  by (simp_all add: set_field_def split: option.splits)

lemma registerFields_frame:
  assumes "registerFields p i fs (mem, c) = Returns (mem', c')"
  shows "field_configs mem' = field_configs mem \<and> NodeTypes c' = NodeTypes c
       \<and> (\<forall>q. q \<noteq> p \<longrightarrow> node_types mem' q = node_types mem q)
       \<and> (\<forall>k r. map_get (NodeFields c) k = Some r \<longrightarrow> map_get (NodeFields c') k = Some r)"
  using assms
proof (induction fs arbitrary: i mem c)
  case Nil
  then show ?case by simp
next
  case (Cons field rest)
  from Cons.prems obtain f where f: "field_configs mem field = Some f"
    by (auto split: option.splits)
  show ?case
  proof (cases "map_get (NodeFields c) (Id_f f)")
    case (Some existing)
    with Cons.prems f have "registerFields p (Suc i) rest (set_field mem p i existing, c) = Returns (mem', c')"
      by simp
    from Cons.IH[OF this] show ?thesis by simp
  next
    case None
    with Cons.prems f obtain nf where nf: "NodeFields c = Some nf"
      by (auto split: option.splits)
    with None Cons.prems f have
      "registerFields p (Suc i) rest (mem, c\<lparr>NodeFields := Some (nf(Id_f f \<mapsto> field))\<rparr>) = Returns (mem', c')"
      by simp
    from Cons.IH[OF this] have
      ih: "field_configs mem' = field_configs mem \<and> NodeTypes c' = NodeTypes c
             \<and> (\<forall>q. q \<noteq> p \<longrightarrow> node_types mem' q = node_types mem q)"
      and up: "\<forall>k r. (nf(Id_f f \<mapsto> field)) k = Some r \<longrightarrow> map_get (NodeFields c') k = Some r"
      by (simp_all add: map_get_def)
    have "map_get (NodeFields c') k = Some r" if "map_get (NodeFields c) k = Some r" for k r
    proof -
      from that nf have k: "nf k = Some r" by (simp add: map_get_def)
      with None nf have "k \<noteq> Id_f f" by (auto simp: map_get_def)
      with k have "(nf(Id_f f \<mapsto> field)) k = Some r" by simp
      with up show ?thesis by blast
    qed
    with ih show ?thesis by blast
  qed
qed

lemma registerFields_canonical:
  assumes "registerFields p i fs (mem, c) = Returns (mem', c')"
    and "node_types mem p = Some nt" and "drop i (Fields nt) = fs"
  shows "\<exists>nt'. node_types mem' p = Some nt' \<and> Id_t nt' = Id_t nt
           \<and> length (Fields nt') = length (Fields nt)
           \<and> take i (Fields nt') = take i (Fields nt)
           \<and> (\<forall>n. i \<le> n \<and> n < length (Fields nt) \<longrightarrow>
                 (\<exists>f. field_configs mem (Fields nt ! n) = Some f
                      \<and> map_get (NodeFields c') (Id_f f) = Some (Fields nt' ! n)))"
  using assms
proof (induction fs arbitrary: i mem c nt)
  case Nil
  from Nil.prems(3) have "length (Fields nt) \<le> i" by simp
  then have no: "\<not> (i \<le> n \<and> n < length (Fields nt))" for n by arith
  from Nil.prems(1) have "mem' = mem" "c' = c" by simp_all
  with Nil.prems(2) no show ?case by blast
next
  case (Cons field rest)
  from Cons.prems(3) have il: "i < length (Fields nt)"
    by (metis drop_eq_Nil linorder_not_le list.distinct(1))
  from Cons.prems(3) have fld: "Fields nt ! i = field" and rest: "drop (Suc i) (Fields nt) = rest"
    using il by (metis Cons_nth_drop_Suc list.inject)+
  from Cons.prems(1) obtain f where f: "field_configs mem field = Some f"
    by (auto split: option.splits)
  show ?case
  proof (cases "map_get (NodeFields c) (Id_f f)")
    case (Some existing)
    let ?nt1 = "nt\<lparr>Fields := (Fields nt)[i := existing]\<rparr>"
    let ?mem1 = "set_field mem p i existing"
    from Some Cons.prems(1) f have run: "registerFields p (Suc i) rest (?mem1, c) = Returns (mem', c')"
      by simp
    have nt1: "node_types ?mem1 p = Some ?nt1" using Cons.prems(2) by simp
    have dr: "drop (Suc i) (Fields ?nt1) = rest" using rest by simp
    from Cons.IH[OF run nt1 dr] obtain nt' where
      n1: "node_types mem' p = Some nt'" and n2: "Id_t nt' = Id_t nt"
      and n3: "length (Fields nt') = length (Fields nt)"
      and n4: "take (Suc i) (Fields nt') = take (Suc i) ((Fields nt)[i := existing])"
      and n5: "\<forall>n. Suc i \<le> n \<and> n < length (Fields nt) \<longrightarrow>
                 (\<exists>f. field_configs mem ((Fields nt)[i := existing] ! n) = Some f
                      \<and> map_get (NodeFields c') (Id_f f) = Some (Fields nt' ! n))"
      by auto
    from n4 have at_i: "Fields nt' ! i = existing"
      using il n3 by (metis length_list_update lessI nth_list_update_eq nth_take)
    from n4 have n4': "take i (Fields nt') = take i (Fields nt)"
      by (metis le_add2 plus_1_eq_Suc take_all_iff take_update_cancel order_refl
          take_take min.absorb1 le_SucI)
    from registerFields_frame[OF run] Some
    have ex: "map_get (NodeFields c') (Id_f f) = Some existing" by blast
    have "\<exists>g. field_configs mem (Fields nt ! n) = Some g
            \<and> map_get (NodeFields c') (Id_f g) = Some (Fields nt' ! n)"
      if "i \<le> n \<and> n < length (Fields nt)" for n
    proof (cases "n = i")
      case True
      then show ?thesis using f fld ex at_i by simp
    next
      case False
      with that have "Suc i \<le> n \<and> n < length (Fields nt)" by simp
      with n5 False show ?thesis by simp
    qed
    with n1 n2 n3 n4' show ?thesis by blast
  next
    case None
    with Cons.prems(1) f obtain nf where nf: "NodeFields c = Some nf"
      by (auto split: option.splits)
    let ?c1 = "c\<lparr>NodeFields := Some (nf(Id_f f \<mapsto> field))\<rparr>"
    from None nf Cons.prems(1) f have run: "registerFields p (Suc i) rest (mem, ?c1) = Returns (mem', c')"
      by simp
    from Cons.IH[OF run Cons.prems(2) rest] obtain nt' where
      n1: "node_types mem' p = Some nt'" and n2: "Id_t nt' = Id_t nt"
      and n3: "length (Fields nt') = length (Fields nt)"
      and n4: "take (Suc i) (Fields nt') = take (Suc i) (Fields nt)"
      and n5: "\<forall>n. Suc i \<le> n \<and> n < length (Fields nt) \<longrightarrow>
                 (\<exists>f. field_configs mem (Fields nt ! n) = Some f
                      \<and> map_get (NodeFields c') (Id_f f) = Some (Fields nt' ! n))"
      by auto
    from n4 have at_i: "Fields nt' ! i = field"
      using il n3 fld by (metis lessI nth_take)
    from n4 have n4': "take i (Fields nt') = take i (Fields nt)"
      by (metis take_take min.absorb1 le_SucI order_refl)
    have "map_get (NodeFields ?c1) (Id_f f) = Some field" by (simp add: map_get_def)
    with registerFields_frame[OF run]
    have ex: "map_get (NodeFields c') (Id_f f) = Some field" by blast
    have "\<exists>g. field_configs mem (Fields nt ! n) = Some g
            \<and> map_get (NodeFields c') (Id_f g) = Some (Fields nt' ! n)"
      if "i \<le> n \<and> n < length (Fields nt)" for n
    proof (cases "n = i")
      case True
      then show ?thesis using f fld ex at_i by simp
    next
      case False
      with that have "Suc i \<le> n \<and> n < length (Fields nt)" by simp
      with n5 show ?thesis by simp
    qed
    with n1 n2 n3 n4' show ?thesis by blast
  qed
qed

lemma RegisterNodeType_loop:
  assumes reg: "RegisterNodeType p (mem, c) = Returns (mem', c', None)"
    and nt: "node_types mem p = Some nt"
  shows "map_get (NodeTypes c) (Id_t nt) = None"
    and "\<exists>c2. registerFields p 0 (Fields nt) (mem, c2) = Returns (mem', c')
              \<and> map_get (NodeTypes c2) (Id_t nt) = Some p
              \<and> (NodeTypes c \<noteq> None \<longrightarrow> NodeFields c2 = NodeFields c)
              \<and> (NodeTypes c = None \<longrightarrow> NodeFields c2 = Some Map.empty)"
proof -
  show fresh: "map_get (NodeTypes c) (Id_t nt) = None"
    using reg nt by (auto split: option.splits)
  define c1 where
    "c1 = (if NodeTypes c = None
           then c\<lparr>NodeTypes := Some Map.empty, NodeFields := Some Map.empty\<rparr> else c)"
  define c2 where "c2 = c1\<lparr>NodeTypes := Some ((the (NodeTypes c1))(Id_t nt \<mapsto> p))\<rparr>"
  have "registerFields p 0 (Fields nt) (mem, c2) = Returns (mem', c')"
    using reg nt fresh unfolding c1_def c2_def
    by (cases "NodeTypes c") (auto simp: Let_def split: outcome.splits prod.splits)
  moreover have "map_get (NodeTypes c2) (Id_t nt) = Some p"
    by (simp add: c2_def map_get_def)
  moreover have "NodeTypes c \<noteq> None \<longrightarrow> NodeFields c2 = NodeFields c"
    by (simp add: c2_def c1_def)
  moreover have "NodeTypes c = None \<longrightarrow> NodeFields c2 = Some Map.empty"
    by (simp add: c2_def c1_def)
  ultimately show "\<exists>c2. registerFields p 0 (Fields nt) (mem, c2) = Returns (mem', c')
              \<and> map_get (NodeTypes c2) (Id_t nt) = Some p
              \<and> (NodeTypes c \<noteq> None \<longrightarrow> NodeFields c2 = NodeFields c)
              \<and> (NodeTypes c = None \<longrightarrow> NodeFields c2 = Some Map.empty)"
    by (intro exI[of _ c2] conjI)
qed

lemma RegisterNodeType_success:
  assumes reg: "RegisterNodeType p (mem, c) = Returns (mem', c', None)"
    and nt: "node_types mem p = Some nt"
  shows "field_configs mem' = field_configs mem"
    and "q \<noteq> p \<Longrightarrow> node_types mem' q = node_types mem q"
    and "map_get (NodeTypes c') (Id_t nt) = Some p"
    and "NodeTypes c \<noteq> None \<Longrightarrow> map_get (NodeFields c) k = Some r
           \<Longrightarrow> map_get (NodeFields c') k = Some r"
    and "\<exists>nt'. node_types mem' p = Some nt' \<and> Id_t nt' = Id_t nt
           \<and> length (Fields nt') = length (Fields nt)
           \<and> (\<forall>n < length (Fields nt).
                 \<exists>f. field_configs mem (Fields nt ! n) = Some f
                    \<and> map_get (NodeFields c') (Id_f f) = Some (Fields nt' ! n))"
proof -
  from RegisterNodeType_loop(2)[OF reg nt] obtain c2 where
    run: "registerFields p 0 (Fields nt) (mem, c2) = Returns (mem', c')"
    and key: "map_get (NodeTypes c2) (Id_t nt) = Some p"
    and same: "NodeTypes c \<noteq> None \<longrightarrow> NodeFields c2 = NodeFields c"
    by auto
  note fr = registerFields_frame[OF run]
  from fr show "field_configs mem' = field_configs mem" by blast
  from fr show "q \<noteq> p \<Longrightarrow> node_types mem' q = node_types mem q" by blast
  from fr key show "map_get (NodeTypes c') (Id_t nt) = Some p" by (simp add: map_get_def)
  from fr same show "NodeTypes c \<noteq> None \<Longrightarrow> map_get (NodeFields c) k = Some r
           \<Longrightarrow> map_get (NodeFields c') k = Some r" by simp
  from registerFields_canonical[OF run nt] show "\<exists>nt'. node_types mem' p = Some nt' \<and> Id_t nt' = Id_t nt
           \<and> length (Fields nt') = length (Fields nt)
           \<and> (\<forall>n < length (Fields nt).
                 \<exists>f. field_configs mem (Fields nt ! n) = Some f
                    \<and> map_get (NodeFields c') (Id_f f) = Some (Fields nt' ! n))"
    by simp
qed


lemmas fixture_defs = start_registry_def start_memory_def start_config_def documentType_def fileType_def
  title_field_def title_stub_def file_field_def registered_def map_get_def set_field_def

lemma register_document: "RegisterNodeType 1 start_registry
   = Returns (fst (registered 1 start_registry), snd (registered 1 start_registry), None)"
  by (simp add: fixture_defs)

text \<open>
  C2.  In a registry that holds a node type under the id of the node type handed
  to \<^verbatim>\<open>RegisterNodeType\<close>, the call fails with the error
  \<^verbatim>\<open>Node type with id <id> does already exist\<close> and returns the memory and the
  registry as they were: the node type registered first is still what
  \<^verbatim>\<open>GetNodeType\<close> returns for the id, and no field of the rejected node type has been
  registered.
\<close>

theorem RegisterNodeType_rejects_duplicate:
  assumes "node_types mem p = Some second" and "map_get (NodeTypes c) (Id_t second) = Some q"
    and "node_types mem q = Some first"
  shows "RegisterNodeType p (mem, c)
           = Returns (mem, c, Some (Errorf (''Node type with id '' @ Id_t second @ '' does already exist'')))
       \<and> GetNodeType ext (mem, c) (Id_t second) = Returns (Inr first)"
  using assms by simp

theorem RegisterNodeType_rejects_duplicate_witness:
  "RegisterNodeType 3 (registered 1 start_registry)
     = Returns (fst (registered 1 start_registry), snd (registered 1 start_registry),
                Some (Errorf ''Node type with id core.Document does already exist''))
   \<and> GetNodeType example_extern (registered 1 start_registry) ''core.Document''
     = Returns (Inr documentType)
   \<and> map_get (NodeFields (snd (registered 1 start_registry))) ''core.File'' = None"
  using RegisterNodeType_rejects_duplicate [of "fst (registered 1 start_registry)" 3
      "documentType\<lparr>AddableTo := [], Fields := [21]\<rparr>" "snd (registered 1 start_registry)" 1
      documentType example_extern]
  by (simp add: fixture_defs)

lemma RegisterNodeType_keeps_NodeTypes:
  assumes reg: "RegisterNodeType p (mem, c) = Returns (mem', c', None)"
    and k: "map_get (NodeTypes c) k = Some r"
  shows "map_get (NodeTypes c') k = Some r"
proof -
  from reg obtain nt where nt: "node_types mem p = Some nt"
    by (auto split: option.splits)
  from RegisterNodeType_loop(1)[OF reg nt] k have ne: "k \<noteq> Id_t nt" by auto
  from k obtain m where m: "NodeTypes c = Some m" "m k = Some r"
    by (auto simp: map_get_def split: option.splits)
  from reg nt m have "registerFields p 0 (Fields nt) (mem, c\<lparr>NodeTypes := Some (m(Id_t nt \<mapsto> p))\<rparr>)
      = Returns (mem', c')"
    by (auto simp: Let_def map_get_def split: option.splits outcome.splits)
  from registerFields_frame[OF this] have "NodeTypes c' = Some (m(Id_t nt \<mapsto> p))" by simp
  with m ne show ?thesis by (simp add: map_get_def)
qed

lemma RegisterNodeType_keeps:
  assumes reg: "RegisterNodeType q (mem, c) = Returns (mem', c', None)"
    and A: "node_types mem a = Some A'" and key: "map_get (NodeTypes c) (Id_t A') = Some a"
  shows "node_types mem' a = Some A'" and "map_get (NodeTypes c') (Id_t A') = Some a"
    and "field_configs mem' = field_configs mem"
    and "map_get (NodeFields c) k = Some r \<Longrightarrow> map_get (NodeFields c') k = Some r"
proof -
  from reg obtain Q where Q: "node_types mem q = Some Q"
    by (auto split: option.splits)
  have ne: "q \<noteq> a"
  proof
    assume "q = a"
    with Q A have "Q = A'" by simp
    with RegisterNodeType_loop(1)[OF reg Q] key show False by simp
  qed
  note s = RegisterNodeType_success[OF reg Q]
  from s(2)[of a] ne A show "node_types mem' a = Some A'" by simp
  from RegisterNodeType_keeps_NodeTypes[OF reg key] show "map_get (NodeTypes c') (Id_t A') = Some a" .
  from s(1) show "field_configs mem' = field_configs mem" .
  from key have "NodeTypes c \<noteq> None" by (auto simp: map_get_def split: option.splits)
  from s(4)[OF this] show "map_get (NodeFields c) k = Some r \<Longrightarrow> map_get (NodeFields c') k = Some r" .
qed

lemma register_all_keeps:
  assumes "register_all ps (mem, c) = Some (mem', c')"
    and "node_types mem a = Some A'" and "map_get (NodeTypes c) (Id_t A') = Some a"
    and "map_get (NodeFields c) k = Some r"
  shows "node_types mem' a = Some A' \<and> map_get (NodeTypes c') (Id_t A') = Some a
       \<and> field_configs mem' = field_configs mem \<and> map_get (NodeFields c') k = Some r"
  using assms
proof (induction ps arbitrary: mem c)
  case Nil
  then show ?case by simp
next
  case (Cons p ps)
  from Cons.prems(1) obtain m1 c1 where
    reg: "RegisterNodeType p (mem, c) = Returns (m1, c1, None)"
    and rest: "register_all ps (m1, c1) = Some (mem', c')"
    by (auto split: outcome.splits option.splits prod.splits)
  note k = RegisterNodeType_keeps[OF reg Cons.prems(2) Cons.prems(3)]
  from Cons.IH[OF rest k(1) k(2) k(4)[OF Cons.prems(4)]] k(3) show ?case by simp
qed

lemma registerFields_first:
  assumes "registerFields p i fs (mem, c) = Returns (mem', c')"
    and "n < length fs" and "field_configs mem (fs ! n) = Some f"
    and "map_get (NodeFields c) (Id_f f) = None"
    and "\<forall>m<n. \<forall>g. field_configs mem (fs ! m) = Some g \<longrightarrow> Id_f g \<noteq> Id_f f"
  shows "map_get (NodeFields c') (Id_f f) = Some (fs ! n)"
  using assms
proof (induction fs arbitrary: i mem c n)
  case Nil
  then show ?case by simp
next
  case (Cons field rest)
  from Cons.prems(1) obtain h where h: "field_configs mem field = Some h"
    by (auto split: option.splits)
  show ?case
  proof (cases n)
    case 0
    with Cons.prems(3) h have fh: "h = f" by simp
    from Cons.prems(1,4) h fh obtain nf where nf: "NodeFields c = Some nf"
      by (auto split: option.splits)
    with Cons.prems(1,4) h fh have
      run: "registerFields p (Suc i) rest (mem, c\<lparr>NodeFields := Some (nf(Id_f f \<mapsto> field))\<rparr>)
              = Returns (mem', c')"
      by simp
    have "map_get (NodeFields (c\<lparr>NodeFields := Some (nf(Id_f f \<mapsto> field))\<rparr>)) (Id_f f) = Some field"
      by (simp add: map_get_def)
    with registerFields_frame[OF run] have "map_get (NodeFields c') (Id_f f) = Some field" by blast
    with 0 show ?thesis by simp
  next
    case (Suc n')
    from Cons.prems(5) Suc h have ne: "Id_f h \<noteq> Id_f f" by fastforce
    from Cons.prems(2) Suc have l: "n' < length rest" by simp
    from Cons.prems(3) Suc have fn: "field_configs mem (rest ! n') = Some f" by simp
    have earlier: "\<forall>m<n'. \<forall>g. field_configs mem (rest ! m) = Some g \<longrightarrow> Id_f g \<noteq> Id_f f"
    proof (intro allI impI)
      fix m g assume "m < n'" and g: "field_configs mem (rest ! m) = Some g"
      then have "Suc m < n" using Suc by simp
      with Cons.prems(5) g show "Id_f g \<noteq> Id_f f" by fastforce
    qed
    show ?thesis
    proof (cases "map_get (NodeFields c) (Id_f h)")
      case (Some existing)
      with Cons.prems(1) h have
        run: "registerFields p (Suc i) rest (set_field mem p i existing, c) = Returns (mem', c')"
        by simp
      from Cons.IH[OF run l _ Cons.prems(4)] fn earlier Suc show ?thesis by simp
    next
      case None
      with Cons.prems(1) h obtain nf where nf: "NodeFields c = Some nf"
        by (auto split: option.splits)
      with None Cons.prems(1) h have
        run: "registerFields p (Suc i) rest (mem, c\<lparr>NodeFields := Some (nf(Id_f h \<mapsto> field))\<rparr>)
                = Returns (mem', c')"
        by simp
      have still: "map_get (NodeFields (c\<lparr>NodeFields := Some (nf(Id_f h \<mapsto> field))\<rparr>)) (Id_f f) = None"
        using Cons.prems(4) nf ne by (simp add: map_get_def)
      from Cons.IH[OF run l fn still earlier] Suc show ?thesis by simp
    qed
  qed
qed

lemma RegisterNodeType_first:
  assumes reg: "RegisterNodeType p (mem, c) = Returns (mem', c', None)"
    and nt: "node_types mem p = Some nt"
    and n: "n < length (Fields nt)" and f: "field_configs mem (Fields nt ! n) = Some f"
    and new: "NodeTypes c = None \<or> map_get (NodeFields c) (Id_f f) = None"
    and earlier: "\<forall>m<n. \<forall>g. field_configs mem (Fields nt ! m) = Some g \<longrightarrow> Id_f g \<noteq> Id_f f"
  shows "map_get (NodeFields c') (Id_f f) = Some (Fields nt ! n)"
proof -
  from RegisterNodeType_loop(2)[OF reg nt] obtain c2 where
    run: "registerFields p 0 (Fields nt) (mem, c2) = Returns (mem', c')"
    and same: "NodeTypes c \<noteq> None \<longrightarrow> NodeFields c2 = NodeFields c"
    and fresh: "NodeTypes c = None \<longrightarrow> NodeFields c2 = Some Map.empty"
    by auto
  have "map_get (NodeFields c2) (Id_f f) = None"
  proof (cases "NodeTypes c = None")
    case True
    with fresh show ?thesis by (simp add: map_get_def)
  next
    case False
    with new same show ?thesis by simp
  qed
  from registerFields_first[OF run n f this earlier] show ?thesis .
qed


text \<open>
  C7.  Let the node type at \<open>a\<close> be registered with success, then any node types
  \<open>ps\<close>, then the node type at \<open>b\<close>, the \<open>i\<close>-th field of the first and the \<open>j\<close>-th
  field of the last having the same id.  After these calls the two entries hold
  the same pointer \<open>r\<close>, and \<open>r\<close> is the definition registered first: it is what
  the registry kept for the id right after the first call and ever since; it is
  the pointer the registry already had for the id before the first call, if it
  had one; and if it had none, and no earlier field of the first node type has the
  id, it is the first node type's own entry, by which the entry of the second has
  been replaced.  Whatever is then stored in the field definition at \<open>r\<close> is what
  both node types read.
\<close>

theorem RegisterNodeType_shares_field_definitions:
  assumes regA: "RegisterNodeType a (mem, c) = Returns (mem1, c1, None)"
    and between: "register_all ps (mem1, c1) = Some (mem1', c1')"
    and regB: "RegisterNodeType b (mem1', c1') = Returns (mem2, c2, None)"
    and A: "node_types mem a = Some A" and B: "node_types mem1' b = Some B"
    and i: "i < length (Fields A)" and j: "j < length (Fields B)"
    and fa: "field_configs mem (Fields A ! i) = Some fa"
    and fb: "field_configs mem1' (Fields B ! j) = Some fb"
    and same: "Id_f fa = Id_f fb"
  shows "\<exists>A' B' r. node_types mem2 a = Some A' \<and> node_types mem2 b = Some B'
           \<and> i < length (Fields A') \<and> j < length (Fields B')
           \<and> Fields A' ! i = r \<and> Fields B' ! j = r
           \<and> map_get (NodeFields c2) (Id_f fa) = Some r
           \<and> map_get (NodeFields c1) (Id_f fa) = Some r
           \<and> map_get (NodeFields c1') (Id_f fa) = Some r
           \<and> (NodeTypes c \<noteq> None \<and> map_get (NodeFields c) (Id_f fa) = Some r0 \<longrightarrow> r = r0)
           \<and> ((NodeTypes c = None \<or> map_get (NodeFields c) (Id_f fa) = None)
                \<and> (\<forall>m<i. \<forall>g. field_configs mem (Fields A ! m) = Some g \<longrightarrow> Id_f g \<noteq> Id_f fa)
                \<longrightarrow> r = Fields A ! i)
           \<and> (\<forall>g. field_of (mem2\<lparr>field_configs := (field_configs mem2)(r \<mapsto> g)\<rparr>) a i = Some g
                  \<and> field_of (mem2\<lparr>field_configs := (field_configs mem2)(r \<mapsto> g)\<rparr>) b j = Some g)"
proof -
  note sa = RegisterNodeType_success[OF regA A]
  from sa(5) i fa obtain A' where
    A1: "node_types mem1 a = Some A'" and idA: "Id_t A' = Id_t A"
    and lenA: "length (Fields A') = length (Fields A)"
    and canA1: "map_get (NodeFields c1) (Id_f fa) = Some (Fields A' ! i)"
    by fastforce
  from sa(3) idA have key1: "map_get (NodeTypes c1) (Id_t A') = Some a" by simp
  from register_all_keeps[OF between A1 key1 canA1] have
    A': "node_types mem1' a = Some A'" and key: "map_get (NodeTypes c1') (Id_t A') = Some a"
    and canA: "map_get (NodeFields c1') (Id_f fa) = Some (Fields A' ! i)"
    by simp_all
  note kb = RegisterNodeType_keeps[OF regB A' key]
  note sb = RegisterNodeType_success[OF regB B]
  from sb(5) j fb obtain B' where
    B': "node_types mem2 b = Some B'"
    and lenB: "length (Fields B') = length (Fields B)"
    and canB: "map_get (NodeFields c2) (Id_f fb) = Some (Fields B' ! j)"
    by fastforce
  have A2: "node_types mem2 a = Some A'" by (rule kb(1))
  from kb(4)[OF canA] have canA2: "map_get (NodeFields c2) (Id_f fa) = Some (Fields A' ! i)" .
  with canB same have eq: "Fields B' ! j = Fields A' ! i" by simp
  have known: "Fields A' ! i = r0"
    if "NodeTypes c \<noteq> None \<and> map_get (NodeFields c) (Id_f fa) = Some r0"
    using sa(4)[of "Id_f fa" r0] that canA1 by simp
  have first: "Fields A' ! i = Fields A ! i"
    if "(NodeTypes c = None \<or> map_get (NodeFields c) (Id_f fa) = None)
        \<and> (\<forall>m<i. \<forall>g. field_configs mem (Fields A ! m) = Some g \<longrightarrow> Id_f g \<noteq> Id_f fa)"
    using RegisterNodeType_first[OF regA A i fa] that canA1 by simp
  have "field_of (mem2\<lparr>field_configs := (field_configs mem2)(Fields A' ! i \<mapsto> g)\<rparr>) a i = Some g
      \<and> field_of (mem2\<lparr>field_configs := (field_configs mem2)(Fields A' ! i \<mapsto> g)\<rparr>) b j = Some g" for g
    using A2 B' eq i j lenA lenB by (simp add: field_of_def)
  with A2 B' eq canA2 canA1 canA known first i j lenA lenB show ?thesis by auto
qed

lemma register_path: "register_all [4] (registered 1 start_registry)
   = Some (registered 4 (registered 1 start_registry))"
  by (simp add: fixture_defs pathType_def)

lemma register_file: "RegisterNodeType 2 (registered 4 (registered 1 start_registry))
   = Returns (fst (registered 2 (registered 4 (registered 1 start_registry))),
              snd (registered 2 (registered 4 (registered 1 start_registry))), None)"
  by (simp add: fixture_defs pathType_def)

theorem RegisterNodeType_shares_field_definitions_witness:
  "field_of (fst (registered 2 (registered 4 (registered 1 start_registry)))) 1 0 = Some title_field
   \<and> field_of (fst (registered 2 (registered 4 (registered 1 start_registry)))) 2 0 = Some title_field
   \<and> map_get (NodeFields (snd (registered 1 start_registry))) ''core.Title'' = Some 10
   \<and> Fields documentType ! 0 = 10
   \<and> Fields (the (node_types (fst (registered 2 (registered 4 (registered 1 start_registry)))) 1)) = [10]
   \<and> Fields (the (node_types (fst (registered 2 (registered 4 (registered 1 start_registry)))) 2))
       = [10, 21]"
  using RegisterNodeType_shares_field_definitions
      [of 1 start_memory start_config "fst (registered 1 start_registry)"
        "snd (registered 1 start_registry)" "[4]"
        "fst (registered 4 (registered 1 start_registry))"
        "snd (registered 4 (registered 1 start_registry))" 2
        "fst (registered 2 (registered 4 (registered 1 start_registry)))"
        "snd (registered 2 (registered 4 (registered 1 start_registry)))"
        documentType fileType 0 0 title_field title_stub 10]
    register_document register_path register_file
  by (simp add: fixture_defs pathType_def field_of_def)

end
